theory Spec2Isabelle
  imports Main "HOL-Library.Word" "HOL-Library.Multiset"
begin

unbundle bit_operations_syntax

section \<open>Bytes, 32-bit words and C strings\<close>

text \<open>
  File contents are lists of bytes. \<open>uint32_t\<close> is a 32-bit word. File names and paths
  are C strings: character lists that hold no NUL character.
\<close>

type_synonym byte = "8 word"
type_synonym uint32 = "32 word"

text \<open>\<open>enum kBufferSize { kBufferSize = 1024 }\<close>, the extensions and the prefix for
  unknown chunk types, as both programs declare them.\<close>

definition kBufferSize :: nat where
  "kBufferSize = 1024"

definition kIconsetExtension :: string where
  "kIconsetExtension = ''.iconset''"

definition kIcnsExtension :: string where
  "kIcnsExtension = ''.icns''"

definition kUnknownFormatFilename :: string where
  "kUnknownFormatFilename = ''icon_data_''"

text \<open>\<open>MAXPATHLEN\<close> comes from \<open>sys/param.h\<close>, which is not part of the repository.
  Both programs use \<open>basename_r\<close> and \<open>strlcpy\<close>, so they are built on macOS or a BSD,
  where the constant is 1024.\<close>

definition MAXPATHLEN :: nat where
  "MAXPATHLEN = 1024"

text \<open>A multi-character constant such as \<open>'icns'\<close>: the compilers the programs are built
  with (GCC, Clang) shift the value left by eight bits for every further character.\<close>

definition multichar :: "string \<Rightarrow> uint32" where
  "multichar s = foldl (\<lambda>acc c. push_bit 8 acc OR of_char c) 0 s"

definition kMagicHeader :: uint32 where
  "kMagicHeader = multichar ''icns''"

text \<open>The table \<open>kIconTypes\<close>, the same in \<open>createicns.c\<close> and \<open>readicns.c\<close>.\<close>

definition kIconTypes :: "(string \<times> uint32) list" where
  "kIconTypes =
    [(''icon_16x16.png'', multichar ''icp4''),
     (''icon_16x16@2x.png'', multichar ''ic11''),
     (''icon_32x32.png'', multichar ''icp5''),
     (''icon_32x32@2x.png'', multichar ''ic12''),
     (''icon_64x64.png'', multichar ''icp6''),
     (''icon_128x128.png'', multichar ''ic07''),
     (''icon_128x128@2x.png'', multichar ''ic13''),
     (''icon_256x256.png'', multichar ''ic08''),
     (''icon_256x256@2x.png'', multichar ''ic14''),
     (''icon_512x512.png'', multichar ''ic09''),
     (''icon_512x512@2x.png'', multichar ''ic10'')]"

text \<open>\<open>htonl\<close> followed by \<open>fwrite\<close> of the four bytes: most significant byte first.\<close>

definition be_bytes :: "uint32 \<Rightarrow> byte list" where
  "be_bytes w = [ucast (drop_bit 24 w), ucast (drop_bit 16 w), ucast (drop_bit 8 w), ucast w]"

text \<open>\<open>ntohl\<close> of four bytes as \<open>fread\<close> stored them.\<close>

fun be_word :: "byte list \<Rightarrow> uint32" where
  "be_word [a, b, c, d] =
     push_bit 24 (ucast a) OR push_bit 16 (ucast b) OR push_bit 8 (ucast c) OR ucast d"
| "be_word _ = 0"

text \<open>What the programs print on the error stream: \<open>PrintError\<close> with its message,
  \<open>PrintSystemError\<close> (\<open>perror\<close>, whose text depends on \<open>errno\<close>), and the encoder's
  warning for a file name it does not know. \<open>PathOverrun\<close> is no message: it marks a
  run of the decoder in which the source writes or reads beyond its path buffer, where C
  leaves the behaviour undefined; the model stops such a run as a failure.\<close>

datatype diag = PrintError string | PrintSystemError | SkipWarning string | PathOverrun

section \<open>Basename\<close>

text \<open>
  \<open>Basename\<close> of \<open>readicns.c\<close>. The two \<open>for\<close> loops walk a pointer backwards; the
  model walks an index. \<open>find_end p e\<close> is the loop
  \<open>for (end = path + length - 1; end > path && *end == '/'; end--)\<close> started at index \<open>e\<close>,
  \<open>find_begin p b\<close> the loop
  \<open>for (begin = end; begin > path && *(begin - 1) != '/'; begin--)\<close> started at \<open>b\<close>.
  The result is \<open>None\<close> where the source returns \<open>NULL\<close>.
\<close>

fun find_end :: "string \<Rightarrow> nat \<Rightarrow> nat" where
  "find_end p 0 = 0"
| "find_end p (Suc e) = (if p ! Suc e = CHR ''/'' then find_end p e else Suc e)"

fun find_begin :: "string \<Rightarrow> nat \<Rightarrow> nat" where
  "find_begin p 0 = 0"
| "find_begin p (Suc b) = (if p ! b \<noteq> CHR ''/'' then find_begin p b else Suc b)"

definition Basename :: "string \<Rightarrow> string option" where
  "Basename path =
     (if path = [] then Some ''.''
      else
        let e = find_end path (length path - 1);
            b = find_begin path e;
            base_length = (e - b) + 1
        in if base_length \<ge> MAXPATHLEN then None
           else Some (take base_length (drop b path)))"

section \<open>The encoder, \<open>createicns.c\<close>\<close>

text \<open>
  The output stream: the bytes of the file and the position of the next write.
  \<open>fwrite\<close> overwrites from the position on and extends the file where it reaches the end;
  \<open>ftell\<close> is the position; \<open>fseek(file, n, SEEK_SET)\<close> sets it. Writes to the output
  file are taken to succeed.
\<close>

record wfile =
  wdata :: "byte list"
  wpos :: nat

definition fwrite :: "byte list \<Rightarrow> wfile \<Rightarrow> wfile" where
  "fwrite bs f =
     \<lparr>wdata = take (wpos f) (wdata f) @ bs @ drop (wpos f + length bs) (wdata f),
      wpos = wpos f + length bs\<rparr>"

definition WriteUint32 :: "uint32 \<Rightarrow> wfile \<Rightarrow> wfile" where
  "WriteUint32 to_write file = fwrite (be_bytes to_write) file"

text \<open>\<open>FindIconType\<close>: the first entry of the table with this file name, 0 when there is
  none.\<close>

fun find_type :: "(string \<times> uint32) list \<Rightarrow> string \<Rightarrow> uint32" where
  "find_type [] icon_filename = 0"
| "find_type ((f, t) # tbl) icon_filename =
     (if f = icon_filename then t else find_type tbl icon_filename)"

definition FindIconType :: "string \<Rightarrow> uint32" where
  "FindIconType icon_filename = find_type kIconTypes icon_filename"

text \<open>
  \<open>OpenIcnsFileForIconset\<close>. \<open>basename_r\<close> is the C library's; \<open>Basename\<close> above is the
  decoder's own copy of it and stands for it here. The result is the name of the file
  created and the stream after the magic header and the placeholder size, or \<open>None\<close>
  with the message printed. \<open>fopen(path, "w")\<close> is taken to succeed; the file is created
  in the working directory, since \<open>path\<close> is a base name.
\<close>

definition OpenIcnsFileForIconset :: "string \<Rightarrow> (string \<times> wfile) option \<times> diag list" where
  "OpenIcnsFileForIconset iconset_path =
     (case Basename iconset_path of
        None \<Rightarrow> (None, [PrintSystemError])
      | Some path \<Rightarrow>
          let path_length = length path;
              extension_length = length kIconsetExtension;
              base_path_length = path_length - extension_length
          in if path_length \<le> extension_length \<or>
                drop base_path_length path \<noteq> kIconsetExtension
             then (None, [PrintError ''Need .iconset directory as input.''])
             else
               let file = \<lparr>wdata = [], wpos = 0\<rparr>
               in (Some (take base_path_length path @ kIcnsExtension,
                         WriteUint32 0 (WriteUint32 kMagicHeader file)), []))"

text \<open>
  The copy loop of \<open>WriteIconToFile\<close>: \<open>fread\<close> of up to \<open>kBufferSize\<close> bytes, \<open>fwrite\<close>
  of what was read, again while a full buffer was read.
\<close>

function copy_icon :: "byte list \<Rightarrow> wfile \<Rightarrow> wfile" where
  "copy_icon infile outfile =
     (let buffer = take kBufferSize infile;
          outfile' = fwrite buffer outfile
      in if length buffer = kBufferSize
         then copy_icon (drop kBufferSize infile) outfile'
         else outfile')"
  by pat_completeness auto
termination
  by (relation "measure (\<lambda>(infile, outfile). length infile)") (auto simp: kBufferSize_def)

declare copy_icon.simps [simp del]

text \<open>
  \<open>WriteIconToFile\<close>. The directory entry carries what \<open>fopen(icon_path, "r")\<close> gives:
  the bytes of the file, or \<open>None\<close> when it cannot be opened. \<open>sz\<close> is the \<open>long size\<close>
  that \<open>ftell\<close> returns at the end of the file; \<open>long\<close> has 64 bits on the platforms the
  programs are written for, so the length of every file fits. \<open>size + 8\<close> is converted to
  \<open>uint32_t\<close>, that is taken modulo \<open>2^32\<close>, in the call \<open>WriteUint32(size + 8, outfile)\<close>.
  Failures of \<open>fseek\<close>, \<open>ftell\<close> and \<open>fread\<close> on the open file are not modelled.
\<close>

definition WriteIconToFile :: "byte list option \<Rightarrow> uint32 \<Rightarrow> wfile \<Rightarrow> bool \<times> wfile \<times> diag list" where
  "WriteIconToFile infile icon_type outfile =
     (case infile of
        None \<Rightarrow> (False, outfile, [PrintSystemError])
      | Some bytes \<Rightarrow>
          let sz = length bytes;
              outfile' = WriteUint32 (of_nat (sz + 8)) (WriteUint32 icon_type outfile)
          in (True, copy_icon bytes outfile', []))"

text \<open>\<open>WriteIcnsFileMetadata\<close>: \<open>ftell\<close>, \<open>fseek\<close> to offset 4, \<open>WriteUint32(size)\<close>, which
  converts the \<open>long\<close> to \<open>uint32_t\<close>.\<close>

definition WriteIcnsFileMetadata :: "wfile \<Rightarrow> wfile" where
  "WriteIcnsFileMetadata file =
     (let sz = wpos file
      in WriteUint32 (of_nat sz) (file\<lparr>wpos := 4\<rparr>))"

text \<open>
  A directory entry as \<open>readdir\<close> yields it, with the contents of the file of that name.
  The list is in the order of \<open>readdir\<close>.
\<close>

type_synonym dirent = "string \<times> byte list option"

definition is_dot :: "string \<Rightarrow> bool" where
  "is_dot d_name = (case d_name of [] \<Rightarrow> False | c # _ \<Rightarrow> c = CHR ''.'')"

text \<open>The \<open>for\<close> loop of \<open>CreateIcnsFromIconset\<close> over the entries.\<close>

fun write_entries :: "dirent list \<Rightarrow> wfile \<Rightarrow> diag list \<Rightarrow> bool \<times> wfile \<times> diag list" where
  "write_entries [] icns log = (True, icns, log)"
| "write_entries ((d_name, infile) # entries) icns log =
     (if is_dot d_name then write_entries entries icns log
      else
        let icon_type = FindIconType d_name
        in if icon_type = 0
           then write_entries entries icns (log @ [SkipWarning d_name])
           else
             (case WriteIconToFile infile icon_type icns of
                (False, icns', msgs) \<Rightarrow> (False, icns', log @ msgs)
              | (True, icns', msgs) \<Rightarrow> write_entries entries icns' (log @ msgs)))"

text \<open>
  The result of a run of the encoder: its return value, the name of the container file
  when one was created, the bytes of that file as the run leaves them, and what was
  printed on the error stream.
\<close>

record enc_result =
  enc_ok :: bool
  icns_name :: "string option"
  icns_bytes :: "byte list"
  enc_log :: "diag list"

text \<open>\<open>CreateIcnsFromIconset\<close>. The second argument is what \<open>opendir\<close> and \<open>readdir\<close>
  give: \<open>None\<close> when the directory cannot be opened.\<close>

definition CreateIcnsFromIconset :: "string \<Rightarrow> dirent list option \<Rightarrow> enc_result" where
  "CreateIcnsFromIconset iconset_path iconset =
     (case iconset of
        None \<Rightarrow> \<lparr>enc_ok = False, icns_name = None, icns_bytes = [], enc_log = [PrintSystemError]\<rparr>
      | Some entries \<Rightarrow>
          (case OpenIcnsFileForIconset iconset_path of
             (None, log) \<Rightarrow> \<lparr>enc_ok = False, icns_name = None, icns_bytes = [], enc_log = log\<rparr>
           | (Some (name, icns), log) \<Rightarrow>
               (case write_entries entries icns log of
                  (False, icns', log') \<Rightarrow>
                    \<lparr>enc_ok = False, icns_name = Some name, icns_bytes = wdata icns', enc_log = log'\<rparr>
                | (True, icns', log') \<Rightarrow>
                    \<lparr>enc_ok = True, icns_name = Some name,
                     icns_bytes = wdata (WriteIcnsFileMetadata icns'), enc_log = log'\<rparr>)))"

section \<open>The decoder, \<open>readicns.c\<close>\<close>

text \<open>
  The input stream: the bytes not read yet and the end-of-file indicator. \<open>fread\<close> of
  \<open>n\<close> bytes delivers them when that many are left and leaves the indicator alone;
  otherwise it delivers what is left and sets the indicator. Read errors other than the
  end of the file are not modelled.
\<close>

record rfile =
  unread :: "byte list"
  at_eof :: bool

definition fread :: "nat \<Rightarrow> rfile \<Rightarrow> byte list \<times> rfile" where
  "fread n f =
     (if n \<le> length (unread f) then (take n (unread f), f\<lparr>unread := drop n (unread f)\<rparr>)
      else (unread f, \<lparr>unread = [], at_eof = True\<rparr>))"

text \<open>\<open>ReadUint32\<close>: 0 when \<open>fread\<close> does not deliver one item of four bytes.\<close>

definition ReadUint32 :: "rfile \<Rightarrow> uint32 \<times> rfile" where
  "ReadUint32 file =
     (case fread 4 file of
        (buf, file') \<Rightarrow> if length buf \<noteq> 4 then (0, file') else (be_word buf, file'))"

text \<open>\<open>OpenIcnsFileForReading\<close>. The argument is what \<open>fopen(icns_path, "r")\<close> gives.\<close>

definition OpenIcnsFileForReading :: "byte list option \<Rightarrow> rfile option \<times> diag list" where
  "OpenIcnsFileForReading file =
     (case file of
        None \<Rightarrow> (None, [PrintSystemError])
      | Some bytes \<Rightarrow>
          (case ReadUint32 \<lparr>unread = bytes, at_eof = False\<rparr> of
             (header, icns) \<Rightarrow>
               if header \<noteq> kMagicHeader
               then (None, [PrintError ''This doesn't look like an Apple .icns file.''])
               else
                 (case ReadUint32 icns of
                    (total_size, icns') \<Rightarrow>
                      if total_size = 0
                      then (None, [PrintError ''This looks like an empty .icns file.''])
                      else (Some icns', []))))"

text \<open>\<open>strstr\<close>: the index of the first occurrence of the needle, \<open>None\<close> for \<open>NULL\<close>.\<close>

fun strstr :: "string \<Rightarrow> string \<Rightarrow> nat option" where
  "strstr [] needle = (if needle = [] then Some 0 else None)"
| "strstr (c # cs) needle =
     (if take (length needle) (c # cs) = needle then Some 0
      else map_option Suc (strstr cs needle))"

text \<open>\<open>strlcpy(dst, src, n)\<close>: the characters it stores before the terminator, at most
  \<open>n - 1\<close>; none, and no terminator either, when \<open>n\<close> is 0.\<close>

definition strlcpy :: "string \<Rightarrow> nat \<Rightarrow> string" where
  "strlcpy src n = take (n - 1) src"

text \<open>\<open>GetIconsetPath\<close>: the path it returns (empty on failure) and what it prints.\<close>

definition GetIconsetPath :: "string \<Rightarrow> string \<times> diag list" where
  "GetIconsetPath icns_path =
     (case Basename icns_path of
        None \<Rightarrow> ([], [PrintError ''Can't determine name of icns file''])
      | Some path \<Rightarrow>
          (case strstr path kIcnsExtension of
             None \<Rightarrow> ([], [PrintError ''Can't find .icns extension on input file''])
           | Some extension \<Rightarrow>
               (take extension path @ strlcpy kIconsetExtension (MAXPATHLEN - extension), [])))"

definition IsEmpty :: "string \<Rightarrow> bool" where
  "IsEmpty path = (path = [])"

text \<open>\<open>GetFilenameFromType\<close>: the first entry of the table with this type.\<close>

fun find_filename :: "(string \<times> uint32) list \<Rightarrow> uint32 \<Rightarrow> string option" where
  "find_filename [] type = None"
| "find_filename ((f, t) # tbl) type = (if t = type then Some f else find_filename tbl type)"

definition GetFilenameFromType :: "uint32 \<Rightarrow> string option" where
  "GetFilenameFromType type = find_filename kIconTypes type"

text \<open>
  The array \<open>unknown_format\<close> of \<open>CopyIconToIconset\<close> without its terminator, and the C
  string that \<open>strlcpy\<close> sees in it: the characters before the first NUL.
\<close>

definition unknown_format :: "uint32 \<Rightarrow> string" where
  "unknown_format header =
     map (\<lambda>w. char_of (unat w))
       [drop_bit 24 header AND 0xff, drop_bit 16 header AND 0xff,
        drop_bit 8 header AND 0xff, header AND 0xff]"

definition c_str :: "string \<Rightarrow> string" where
  "c_str cs = takeWhile (\<lambda>c. c \<noteq> CHR 0x00) cs"

text \<open>
  The file name that \<open>CopyIconToIconset\<close> appends to \<open>iconset_path\<close> and a slash.
  \<open>end\<close> is the offset \<open>iconset_path_end - iconset_path.path\<close> after the slash is stored.
  For a known type one \<open>strlcpy\<close> has \<open>MAXPATHLEN - end\<close> bytes of room; with no room it
  stores no terminator after the slash. For an unknown type the pointer advances by the
  full length of the prefix, whatever was stored, and the second \<open>strlcpy\<close> gets
  \<open>MAXPATHLEN - end2\<close>, which is negative when \<open>end2\<close> is beyond the buffer. These two
  cases are \<open>None\<close>.
\<close>

definition icon_name :: "string \<Rightarrow> uint32 \<Rightarrow> string option" where
  "icon_name iconset_path header =
     (let end = length iconset_path + 1
      in case GetFilenameFromType header of
           Some icon_filename \<Rightarrow>
             if MAXPATHLEN \<le> end then None
             else Some (strlcpy icon_filename (MAXPATHLEN - end))
         | None \<Rightarrow>
             let end2 = end + length kUnknownFormatFilename
             in if MAXPATHLEN < end2 then None
                else Some (strlcpy kUnknownFormatFilename (MAXPATHLEN - end) @
                           strlcpy (c_str (unknown_format header)) (MAXPATHLEN - end2)))"

text \<open>
  The copy loop of \<open>CopyIconToIconset\<close>. \<open>size\<close> (here \<open>sz\<close>) only decreases in it, so
  it is a natural number here. A short \<open>fread\<close> ends the loop before anything of that block is written.
\<close>

function copy_payload :: "nat \<Rightarrow> rfile \<Rightarrow> byte list \<Rightarrow> bool \<times> rfile \<times> byte list" where
  "copy_payload sz icns target =
     (if sz > 0 then
        let to_read = (if sz > kBufferSize then kBufferSize else sz)
        in case fread to_read icns of
             (buffer, icns') \<Rightarrow>
               if length buffer \<noteq> to_read then (False, icns', target)
               else copy_payload (sz - to_read) icns' (target @ buffer)
      else (True, icns, target))"
  by pat_completeness auto
termination
  by (relation "measure (\<lambda>(sz, icns, target). sz)") (auto simp: kBufferSize_def)

declare copy_payload.simps [simp del]

text \<open>
  The state of a decoder run: the input stream, the files written so far, in the order
  of their creation, each under its path and with the bytes it holds, and the messages
  printed.
\<close>

record dec_state =
  dec_in :: rfile
  dec_files :: "(string \<times> byte list) list"
  dec_log :: "diag list"

text \<open>
  \<open>CopyIconToIconset\<close>. The directory was created by this run and holds nothing but the
  regular files written before, so \<open>fopen(iconset_path.path, "w")\<close> fails exactly in two
  cases. The file name has a slash in it: the path then leads through a directory that
  does not exist. Or the file name is empty, which \<open>strlcpy\<close> leaves when the buffer has
  room for the terminator only: the path then ends in the slash and names the directory
  itself, which cannot be opened for writing.
\<close>

definition CopyIconToIconset :: "string \<Rightarrow> dec_state \<Rightarrow> bool \<times> dec_state" where
  "CopyIconToIconset iconset_path s =
     (case ReadUint32 (dec_in s) of
        (header, icns1) \<Rightarrow>
          if header = 0 \<and> at_eof icns1 then (True, s\<lparr>dec_in := icns1\<rparr>)
          else
            (case ReadUint32 icns1 of
               (chunk_size, icns2) \<Rightarrow>
                 if chunk_size \<le> 8
                 then (False, s\<lparr>dec_in := icns2,
                                 dec_log := dec_log s @ [PrintError ''Invalid size in .icns file'']\<rparr>)
                 else
                   let payload_size = chunk_size - 8
                   in case icon_name iconset_path header of
                        None \<Rightarrow> (False, s\<lparr>dec_in := icns2, dec_log := dec_log s @ [PathOverrun]\<rparr>)
                      | Some name \<Rightarrow>
                          if name = [] \<or> CHR ''/'' \<in> set name
                          then (False, s\<lparr>dec_in := icns2,
                                          dec_log := dec_log s @ [PrintSystemError]\<rparr>)
                          else
                            (case copy_payload (unat payload_size) icns2 [] of
                               (ok, icns3, target) \<Rightarrow>
                                 (ok, \<lparr>dec_in = icns3,
                                       dec_files = dec_files s @ [(iconset_path @ ''/'' @ name, target)],
                                       dec_log = dec_log s @
                                         (if ok then []
                                          else [PrintError ''Error copying from .icns file to iconset''])\<rparr>))))"

text \<open>The loop \<open>while (!feof(icns))\<close> of \<open>CreateIconsetFromIcns\<close>.\<close>

function read_icons :: "string \<Rightarrow> dec_state \<Rightarrow> bool \<times> dec_state" where
  "read_icons iconset_path s =
     (if \<not> at_eof (dec_in s) then
        (case CopyIconToIconset iconset_path s of
           (False, s') \<Rightarrow> (False, s')
         | (True, s') \<Rightarrow> read_icons iconset_path s')
      else (True, s))"
  by pat_completeness auto

text \<open>
  The result of a run of the decoder: its return value, the directory created, if any,
  the files written into it, and the messages printed.
\<close>

record dec_result =
  dec_ok :: bool
  iconset_dir :: "string option"
  iconset_files :: "(string \<times> byte list) list"
  dec_messages :: "diag list"

text \<open>
  \<open>CreateIconsetFromIcns\<close>. \<open>file\<close> is what \<open>fopen\<close> of the path gives and \<open>mkdir_ok\<close>
  says whether \<open>mkdir\<close> of the output directory succeeds (it fails, for one, when the
  directory exists).
\<close>

definition CreateIconsetFromIcns :: "string \<Rightarrow> byte list option \<Rightarrow> bool \<Rightarrow> dec_result" where
  "CreateIconsetFromIcns icns_path file mkdir_ok =
     (case OpenIcnsFileForReading file of
        (None, log) \<Rightarrow>
          \<lparr>dec_ok = False, iconset_dir = None, iconset_files = [], dec_messages = log\<rparr>
      | (Some icns, log) \<Rightarrow>
          (case GetIconsetPath icns_path of
             (iconset_path, log') \<Rightarrow>
               if IsEmpty iconset_path
               then \<lparr>dec_ok = False, iconset_dir = None, iconset_files = [],
                     dec_messages = log @ log'\<rparr>
               else if \<not> mkdir_ok
               then \<lparr>dec_ok = False, iconset_dir = None, iconset_files = [],
                     dec_messages = log @ log' @ [PrintSystemError]\<rparr>
               else
                 (case read_icons iconset_path
                         \<lparr>dec_in = icns, dec_files = [], dec_log = log @ log'\<rparr> of
                    (ok, s) \<Rightarrow>
                      \<lparr>dec_ok = ok, iconset_dir = Some iconset_path,
                       iconset_files = dec_files s, dec_messages = dec_log s\<rparr>)))"

text \<open>The directory as the files written leave it: a later file of the same path
  replaces an earlier one.\<close>

definition final_files :: "(string \<times> byte list) list \<Rightarrow> (string \<rightharpoonup> byte list)" where
  "final_files fs = map_of (rev fs)"

section \<open>Notions used to state the properties\<close>

text \<open>The bytes of one chunk as the format describes it: the type, the length of the
  whole chunk as a 32-bit number, the payload.\<close>

definition chunk :: "uint32 \<Rightarrow> byte list \<Rightarrow> byte list" where
  "chunk t b = be_bytes t @ be_bytes (of_nat (length b + 8)) @ b"

text \<open>The chunks that a run over readable entries appends, and the warnings it prints.\<close>

fun chunks :: "dirent list \<Rightarrow> byte list" where
  "chunks [] = []"
| "chunks ((n, c) # es) =
     (if is_dot n \<or> FindIconType n = 0 then chunks es
      else case c of None \<Rightarrow> [] | Some b \<Rightarrow> chunk (FindIconType n) b @ chunks es)"

fun warnings :: "dirent list \<Rightarrow> diag list" where
  "warnings [] = []"
| "warnings ((n, c) # es) =
     (if \<not> is_dot n \<and> FindIconType n = 0 then SkipWarning n # warnings es else warnings es)"

definition readable :: "dirent list \<Rightarrow> bool" where
  "readable es = (\<forall>(n, c) \<in> set es. \<not> is_dot n \<and> FindIconType n \<noteq> 0 \<longrightarrow> c \<noteq> None)"

text \<open>The chunk stream of a list of named payloads.\<close>

definition stream_of :: "(string \<times> byte list) list \<Rightarrow> byte list" where
  "stream_of fs = concat (map (\<lambda>(n, b). chunk (FindIconType n) b) fs)"

text \<open>The files of a directory listing that are no dot entries, with their contents, and
  the same files under their paths in a directory \<open>dir\<close>.\<close>

fun visible_files :: "dirent list \<Rightarrow> (string \<times> byte list) list" where
  "visible_files [] = []"
| "visible_files ((n, c) # es) =
     (if is_dot n then visible_files es
      else case c of None \<Rightarrow> visible_files es | Some b \<Rightarrow> (n, b) # visible_files es)"

definition under :: "string \<Rightarrow> (string \<times> byte list) list \<Rightarrow> (string \<times> byte list) list" where
  "under dir fs = map (\<lambda>(n, b). (dir @ ''/'' @ n, b)) fs"

text \<open>A byte of the file as a character of a file name.\<close>

definition char_of_byte :: "byte \<Rightarrow> char" where
  "char_of_byte t = char_of (unat t)"

section \<open>Termination of the decoder's loop\<close>

lemma copy_payload_rest:
  "copy_payload n f acc = (True, f', t) \<Longrightarrow>
     length (unread f') + n = length (unread f) \<and> at_eof f' = at_eof f"
proof (induction n f acc rule: copy_payload.induct)
  case (1 sz icns target)
  show ?case
  proof (cases "sz > 0")
    case False
    with "1.prems" show ?thesis by (subst (asm) copy_payload.simps) simp
  next
    case True
    define to_read where "to_read = (if sz > kBufferSize then kBufferSize else sz)"
    obtain buffer icns' where fr: "fread to_read icns = (buffer, icns')"
      by (cases "fread to_read icns")
    from "1.prems" True fr have len: "length buffer = to_read"
      by (subst (asm) copy_payload.simps) (auto simp: to_read_def split: if_splits)
    with "1.prems" True fr
    have rec: "copy_payload (sz - to_read) icns' (target @ buffer) = (True, f', t)"
      by (subst (asm) copy_payload.simps) (auto simp: to_read_def split: if_splits)
    from fr len True have enough: "to_read \<le> length (unread icns)"
      by (auto simp: fread_def to_read_def kBufferSize_def split: if_splits)
    with fr have icns': "icns' = icns\<lparr>unread := drop to_read (unread icns)\<rparr>"
      by (simp add: fread_def)
    have "length (unread f') + (sz - to_read) = length (unread icns') \<and> at_eof f' = at_eof icns'"
      using "1.IH" [OF True to_read_def fr [symmetric] _ rec] len by simp
    moreover have "to_read \<le> sz" by (simp add: to_read_def)
    ultimately show ?thesis using icns' enough by simp arith
  qed
qed

lemma ReadUint32_rest:
  "ReadUint32 f = (w, f') \<Longrightarrow>
     (length (unread f') + 4 = length (unread f) \<and> at_eof f' = at_eof f) \<or>
     (w = 0 \<and> at_eof f' \<and> unread f' = [])"
  by (auto simp: ReadUint32_def fread_def split: if_splits)

lemma CopyIconToIconset_progress:
  assumes "CopyIconToIconset p s = (True, s')" and neof: "\<not> at_eof (dec_in s)"
  shows "(at_eof (dec_in s') \<and> unread (dec_in s') = []) \<or>
         (length (unread (dec_in s')) + 8 < length (unread (dec_in s)) \<and>
          at_eof (dec_in s') = at_eof (dec_in s))"
proof -
  obtain header icns1 where r1: "ReadUint32 (dec_in s) = (header, icns1)"
    by (cases "ReadUint32 (dec_in s)")
  show ?thesis
  proof (cases "header = 0 \<and> at_eof icns1")
    case True
    with assms r1 have s': "s' = s\<lparr>dec_in := icns1\<rparr>"
      by (simp add: CopyIconToIconset_def)
    from ReadUint32_rest [OF r1] True s' neof show ?thesis by auto
  next
    case False
    obtain sz icns2 where r2: "ReadUint32 icns1 = (sz, icns2)"
      by (cases "ReadUint32 icns1")
    have big: "\<not> sz \<le> 8"
    proof
      assume "sz \<le> 8"
      with assms(1) r1 r2 False show False by (simp add: CopyIconToIconset_def)
    qed
    then have "sz \<noteq> 0" by auto
    with ReadUint32_rest [OF r2]
    have s2: "length (unread icns2) + 4 = length (unread icns1)" "at_eof icns2 = at_eof icns1"
      by auto
    from ReadUint32_rest [OF r1] False
    have s1: "length (unread icns1) + 4 = length (unread (dec_in s))" "at_eof icns1 = at_eof (dec_in s)"
      by auto
    obtain name where nm: "icon_name p header = Some name"
      using assms(1) r1 r2 False big by (cases "icon_name p header") (simp_all add: CopyIconToIconset_def)
    have ns: "\<not> (name = [] \<or> CHR ''/'' \<in> set name)"
    proof
      assume "name = [] \<or> CHR ''/'' \<in> set name"
      with assms(1) r1 r2 False big nm show False by (simp add: CopyIconToIconset_def)
    qed
    obtain ok icns3 target where cp0: "copy_payload (unat (sz - 8)) icns2 [] = (ok, icns3, target)"
      by (cases "copy_payload (unat (sz - 8)) icns2 []")
    from assms(1) r1 r2 False big nm ns cp0 have ok: "ok" and s': "dec_in s' = icns3"
      by (auto simp add: CopyIconToIconset_def)
    from big have "sz - 8 \<noteq> 0" by auto
    then have "0 < unat (sz - 8)"
      by (simp add: unat_gt_0)
    with copy_payload_rest [of "unat (sz - 8)" icns2 "[]" icns3 target] cp0 ok s1 s2 s' show ?thesis by simp
  qed
qed

termination read_icons
proof (relation "measure (\<lambda>(p, s). length (unread (dec_in s)) + (if at_eof (dec_in s) then 0 else 1))")
  show "wf (measure (\<lambda>(p, s). length (unread (dec_in s)) + (if at_eof (dec_in s) then 0 else 1)))"
    by simp
next
  fix iconset_path :: string and s s' :: dec_state and ok :: bool
  assume neof: "\<not> at_eof (dec_in s)" and "(ok, s') = CopyIconToIconset iconset_path s"
    and "ok = True"
  then have "CopyIconToIconset iconset_path s = (True, s')" by simp
  from CopyIconToIconset_progress [OF this neof] neof
  show "((iconset_path, s'), (iconset_path, s)) \<in>
        measure (\<lambda>(p, s). length (unread (dec_in s)) + (if at_eof (dec_in s) then 0 else 1))"
    by auto
qed

declare read_icons.simps [simp del]

section \<open>Words and bytes\<close>

lemma byte_bit_bound: "bit (b :: byte) n \<Longrightarrow> n < 8"
  by (drule bit_imp_le_length) simp

lemma be_word_be_bytes: "be_word (be_bytes w) = w"
  unfolding be_bytes_def be_word.simps
proof (rule bit_word_eqI)
  fix n :: nat
  assume "n < LENGTH(32)"
  then show "bit (push_bit 24 (ucast (ucast (drop_bit 24 w) :: byte)) OR
                  push_bit 16 (ucast (ucast (drop_bit 16 w) :: byte)) OR
                  push_bit 8 (ucast (ucast (drop_bit 8 w) :: byte)) OR
                  (ucast (ucast w :: byte) :: uint32)) n = bit w n"
    by (cases "n < 8"; cases "n < 16"; cases "n < 24")
       (auto simp add: bit_simps not_less)
qed

lemma length_be_bytes: "length (be_bytes w) = 4"
  by (simp add: be_bytes_def)

lemma be_bytes_be_word: "be_bytes (be_word [a, b, c, d]) = [a, b, c, d]"
  unfolding be_bytes_def be_word.simps
  apply simp
  apply (intro conjI; rule bit_word_eqI)
  apply (auto simp add: bit_simps dest: byte_bit_bound)
  done

lemma and_mask8: "(w :: uint32) AND mask 8 = ucast (ucast w :: byte)"
  by (rule bit_word_eqI) (auto simp add: bit_simps)

lemma and_ff: "(w :: uint32) AND 0xff = ucast (ucast w :: byte)"
proof -
  have "(0xff :: uint32) = mask 8" by (simp add: mask_eq_exp_minus_1)
  then show ?thesis by (simp only: and_mask8)
qed

lemma unat_ucast_byte: "unat (ucast (x :: byte) :: uint32) = unat x"
proof -
  have "unat x < 2 ^ 8" using unsigned_less [of x] by simp
  then have "unat x < 2 ^ 32" by simp
  then show ?thesis by (simp add: unsigned_ucast_eq take_bit_nat_eq_self)
qed

lemma unknown_format_be_word:
  "unknown_format (be_word [a, b, c, d]) = map (\<lambda>x. char_of (unat x)) [a, b, c, d]"
proof -
  have "be_bytes (be_word [a, b, c, d]) = [a, b, c, d]" by (rule be_bytes_be_word)
  then have e: "ucast (drop_bit 24 (be_word [a, b, c, d])) = a"
     "ucast (drop_bit 16 (be_word [a, b, c, d])) = b"
     "ucast (drop_bit 8 (be_word [a, b, c, d])) = c"
     "ucast (be_word [a, b, c, d]) = d"
    by (simp_all add: be_bytes_def)
  show ?thesis
    unfolding unknown_format_def and_ff using e by (simp add: unat_ucast_byte)
qed


section \<open>The encoder writes chunk after chunk\<close>

lemma fwrite_at_end:
  "wpos f = length (wdata f) \<Longrightarrow>
     fwrite bs f = \<lparr>wdata = wdata f @ bs, wpos = length (wdata f) + length bs\<rparr>"
  by (simp add: fwrite_def)

lemma WriteUint32_at_end:
  "wpos f = length (wdata f) \<Longrightarrow>
     WriteUint32 w f = \<lparr>wdata = wdata f @ be_bytes w, wpos = length (wdata f) + 4\<rparr>"
  by (simp add: WriteUint32_def fwrite_at_end length_be_bytes)

lemma copy_icon_full:
  "length (take kBufferSize infile) = kBufferSize \<Longrightarrow>
     copy_icon infile outfile =
       copy_icon (drop kBufferSize infile) (fwrite (take kBufferSize infile) outfile)"
  by (subst copy_icon.simps) (simp only: Let_def if_True simp_thms)

lemma copy_icon_last:
  "length (take kBufferSize infile) \<noteq> kBufferSize \<Longrightarrow>
     copy_icon infile outfile = fwrite (take kBufferSize infile) outfile"
  by (subst copy_icon.simps) (simp only: Let_def if_False simp_thms)

lemma copy_icon_at_end:
  "wpos f = length (wdata f) \<Longrightarrow>
     copy_icon bs f = \<lparr>wdata = wdata f @ bs, wpos = length (wdata f) + length bs\<rparr>"
proof (induction bs f rule: copy_icon.induct)
  case (1 infile outfile)
  let ?buffer = "take kBufferSize infile"
  let ?out = "fwrite ?buffer outfile"
  have out: "?out = \<lparr>wdata = wdata outfile @ ?buffer, wpos = length (wdata outfile) + length ?buffer\<rparr>"
    using "1.prems" by (rule fwrite_at_end)
  then have out_end: "wpos ?out = length (wdata ?out)" by simp
  show ?case
  proof (cases "length ?buffer = kBufferSize")
    case True
    have "copy_icon (drop kBufferSize infile) ?out =
            \<lparr>wdata = wdata ?out @ drop kBufferSize infile,
             wpos = length (wdata ?out) + length (drop kBufferSize infile)\<rparr>"
      by (rule "1.IH" [OF refl refl True out_end])
    also have "wdata ?out @ drop kBufferSize infile = wdata outfile @ infile"
      unfolding out by simp
    also have "length (wdata ?out) + length (drop kBufferSize infile) =
               length (wdata outfile) + length infile"
      unfolding out using True by simp
    finally show ?thesis unfolding copy_icon_full [OF True] .
  next
    case False
    then have "?buffer = infile" by (simp add: kBufferSize_def)
    then show ?thesis unfolding copy_icon_last [OF False] out by simp
  qed
qed

lemma WriteIconToFile_at_end:
  "wpos f = length (wdata f) \<Longrightarrow>
     WriteIconToFile (Some b) t f =
       (True, \<lparr>wdata = wdata f @ chunk t b, wpos = length (wdata f) + length (chunk t b)\<rparr>, [])"
proof -
  assume e: "wpos f = length (wdata f)"
  let ?f1 = "WriteUint32 t f"
  let ?f2 = "WriteUint32 (of_nat (length b + 8)) ?f1"
  have f1: "?f1 = \<lparr>wdata = wdata f @ be_bytes t, wpos = length (wdata f) + 4\<rparr>"
    using e by (rule WriteUint32_at_end)
  then have "wpos ?f1 = length (wdata ?f1)" by (simp add: length_be_bytes)
  then have f2: "?f2 = \<lparr>wdata = wdata ?f1 @ be_bytes (of_nat (length b + 8)), wpos = length (wdata ?f1) + 4\<rparr>"
    by (rule WriteUint32_at_end)
  then have "wpos ?f2 = length (wdata ?f2)" by (simp add: length_be_bytes)
  then have "copy_icon b ?f2 = \<lparr>wdata = wdata ?f2 @ b, wpos = length (wdata ?f2) + length b\<rparr>"
    by (rule copy_icon_at_end)
  then have "copy_icon b ?f2 =
          \<lparr>wdata = wdata f @ chunk t b, wpos = length (wdata f) + length (chunk t b)\<rparr>"
    unfolding f2 unfolding f1 by (simp add: chunk_def length_be_bytes)
  then show ?thesis
    unfolding WriteIconToFile_def by (simp only: option.case Let_def)
qed

lemma write_entries_dot:
  "is_dot n \<Longrightarrow> write_entries ((n, c) # es) f log = write_entries es f log"
  by simp

lemma write_entries_unknown:
  "\<not> is_dot n \<Longrightarrow> FindIconType n = 0 \<Longrightarrow>
     write_entries ((n, c) # es) f log = write_entries es f (log @ [SkipWarning n])"
  by simp

lemma write_entries_fail:
  "\<not> is_dot n \<Longrightarrow> FindIconType n \<noteq> 0 \<Longrightarrow>
     WriteIconToFile c (FindIconType n) f = (False, f', m) \<Longrightarrow>
     write_entries ((n, c) # es) f log = (False, f', log @ m)"
  by (simp add: Let_def)

lemma write_entries_ok:
  "\<not> is_dot n \<Longrightarrow> FindIconType n \<noteq> 0 \<Longrightarrow>
     WriteIconToFile c (FindIconType n) f = (True, f', m) \<Longrightarrow>
     write_entries ((n, c) # es) f log = write_entries es f' (log @ m)"
  by (simp add: Let_def)

lemma write_entries_readable:
  "readable es \<Longrightarrow> wpos f = length (wdata f) \<Longrightarrow>
     write_entries es f log =
       (True, \<lparr>wdata = wdata f @ chunks es, wpos = length (wdata f) + length (chunks es)\<rparr>,
        log @ warnings es)"
proof (induction es arbitrary: f log)
  case Nil
  then show ?case by simp
next
  case (Cons e es)
  obtain n c where e: "e = (n, c)" by (cases e)
  from Cons.prems have r: "readable es" by (simp add: readable_def)
  consider (dot) "is_dot n" | (unknown) "\<not> is_dot n" "FindIconType n = 0"
    | (known) "\<not> is_dot n" "FindIconType n \<noteq> 0" by blast
  then show ?case
  proof cases
    case dot
    then show ?thesis
      unfolding e write_entries_dot [OF dot] using Cons.IH [OF r Cons.prems(2), of log]
      by simp
  next
    case unknown
    then show ?thesis
      unfolding e write_entries_unknown [OF unknown]
      using Cons.IH [OF r Cons.prems(2), of "log @ [SkipWarning n]"] by simp
  next
    case known
    with Cons.prems(1) e obtain b where c: "c = Some b" by (auto simp: readable_def)
    let ?f = "\<lparr>wdata = wdata f @ chunk (FindIconType n) b,
               wpos = length (wdata f) + length (chunk (FindIconType n) b)\<rparr>"
    have w: "WriteIconToFile c (FindIconType n) f = (True, ?f, [])"
      unfolding c by (rule WriteIconToFile_at_end [OF Cons.prems(2)])
    have "write_entries es ?f (log @ []) =
            (True, \<lparr>wdata = wdata ?f @ chunks es, wpos = length (wdata ?f) + length (chunks es)\<rparr>,
             (log @ []) @ warnings es)"
      by (rule Cons.IH [OF r]) simp
    then show ?thesis
      unfolding e write_entries_ok [OF known w] using known c by simp
  qed
qed

lemma write_entries_invariant:
  "wpos f = length (wdata f) \<Longrightarrow> write_entries es f log = (ok, f', log') \<Longrightarrow>
     wpos f' = length (wdata f') \<and> take (length (wdata f)) (wdata f') = wdata f"
proof (induction es arbitrary: f log)
  case Nil
  then show ?case by simp
next
  case (Cons e es)
  obtain n c where e: "e = (n, c)" by (cases e)
  consider (dot) "is_dot n" | (unknown) "\<not> is_dot n" "FindIconType n = 0"
    | (known) "\<not> is_dot n" "FindIconType n \<noteq> 0" by blast
  then show ?case
  proof cases
    case dot
    from Cons.prems(2) have "write_entries es f log = (ok, f', log')"
      unfolding e write_entries_dot [OF dot] .
    then show ?thesis by (rule Cons.IH [OF Cons.prems(1)])
  next
    case unknown
    from Cons.prems(2) have "write_entries es f (log @ [SkipWarning n]) = (ok, f', log')"
      unfolding e write_entries_unknown [OF unknown] .
    then show ?thesis by (rule Cons.IH [OF Cons.prems(1)])
  next
    case known
    show ?thesis
    proof (cases c)
      case None
      then have "WriteIconToFile c (FindIconType n) f = (False, f, [PrintSystemError])"
        by (simp add: WriteIconToFile_def)
      from write_entries_fail [OF known this, of es log] Cons.prems show ?thesis
        unfolding e by simp
    next
      case (Some b)
      let ?f = "\<lparr>wdata = wdata f @ chunk (FindIconType n) b,
                 wpos = length (wdata f) + length (chunk (FindIconType n) b)\<rparr>"
      have w: "WriteIconToFile c (FindIconType n) f = (True, ?f, [])"
        unfolding Some by (rule WriteIconToFile_at_end [OF Cons.prems(1)])
      from Cons.prems(2) have "write_entries es ?f (log @ []) = (ok, f', log')"
        unfolding e write_entries_ok [OF known w] .
      from Cons.IH [OF _ this]
      have i: "wpos f' = length (wdata f')"
        and t: "take (length (wdata ?f)) (wdata f') = wdata ?f" by simp_all
      have "take (length (wdata f)) (wdata f') =
              take (length (wdata f)) (take (length (wdata ?f)) (wdata f'))"
        by (simp add: take_take min_def)
      also have "\<dots> = wdata f" unfolding t by simp
      finally show ?thesis using i by simp
    qed
  qed
qed

lemma write_entries_log:
  "write_entries es f log =
     (case write_entries es f [] of (ok, f', m) \<Rightarrow> (ok, f', log @ m))"
proof (induction es arbitrary: f log)
  case Nil
  then show ?case by simp
next
  case (Cons e es)
  obtain n c where e: "e = (n, c)" by (cases e)
  have a: "write_entries es g (log @ m) =
             (case write_entries es g m of (ok, f', m') \<Rightarrow> (ok, f', log @ m'))" for g m
  proof -
    obtain ok f' m' where r: "write_entries es g [] = (ok, f', m')"
      by (cases "write_entries es g []")
    show ?thesis
      using Cons.IH [of g "log @ m"] Cons.IH [of g m] r by simp
  qed
  consider (dot) "is_dot n" | (unknown) "\<not> is_dot n" "FindIconType n = 0"
    | (known) "\<not> is_dot n" "FindIconType n \<noteq> 0" by blast
  then show ?case
  proof cases
    case dot
    show ?thesis unfolding e write_entries_dot [OF dot] by (rule Cons.IH)
  next
    case unknown
    show ?thesis unfolding e write_entries_unknown [OF unknown]
      using a [of f "[] @ [SkipWarning n]"] by simp
  next
    case known
    obtain ok f' m where w: "WriteIconToFile c (FindIconType n) f = (ok, f', m)"
      by (cases "WriteIconToFile c (FindIconType n) f")
    show ?thesis
    proof (cases ok)
      case True
      with w have w': "WriteIconToFile c (FindIconType n) f = (True, f', m)" by simp
      show ?thesis unfolding e write_entries_ok [OF known w']
        using a [of f' "[] @ m"] by simp
    next
      case False
      with w have w': "WriteIconToFile c (FindIconType n) f = (False, f', m)" by simp
      show ?thesis unfolding e write_entries_fail [OF known w'] by simp
    qed
  qed
qed

lemma write_entries_append:
  "write_entries (xs @ ys) f log =
     (case write_entries xs f log of
        (False, f', log') \<Rightarrow> (False, f', log')
      | (True, f', log') \<Rightarrow> write_entries ys f' log')"
proof (induction xs arbitrary: f log)
  case Nil
  then show ?case by simp
next
  case (Cons e xs)
  obtain n c where e: "e = (n, c)" by (cases e)
  consider (dot) "is_dot n" | (unknown) "\<not> is_dot n" "FindIconType n = 0"
    | (known) "\<not> is_dot n" "FindIconType n \<noteq> 0" by blast
  then show ?case
  proof cases
    case dot
    show ?thesis unfolding e append_Cons write_entries_dot [OF dot] by (rule Cons.IH)
  next
    case unknown
    show ?thesis unfolding e append_Cons write_entries_unknown [OF unknown] by (rule Cons.IH)
  next
    case known
    obtain ok f' m where w: "WriteIconToFile c (FindIconType n) f = (ok, f', m)"
      by (cases "WriteIconToFile c (FindIconType n) f")
    show ?thesis
    proof (cases ok)
      case True
      with w have w': "WriteIconToFile c (FindIconType n) f = (True, f', m)" by simp
      show ?thesis unfolding e append_Cons write_entries_ok [OF known w'] by (rule Cons.IH)
    next
      case False
      with w have w': "WriteIconToFile c (FindIconType n) f = (False, f', m)" by simp
      show ?thesis unfolding e append_Cons write_entries_fail [OF known w'] by simp
    qed
  qed
qed


section \<open>The table\<close>

lemma kIconTypes_eval:
  "kIconTypes =
    [(''icon_16x16.png'', 0x69637034), (''icon_16x16@2x.png'', 0x69633131),
     (''icon_32x32.png'', 0x69637035), (''icon_32x32@2x.png'', 0x69633132),
     (''icon_64x64.png'', 0x69637036), (''icon_128x128.png'', 0x69633037),
     (''icon_128x128@2x.png'', 0x69633133), (''icon_256x256.png'', 0x69633038),
     (''icon_256x256@2x.png'', 0x69633134), (''icon_512x512.png'', 0x69633039),
     (''icon_512x512@2x.png'', 0x69633130)]"
  by (simp add: kIconTypes_def multichar_def)

lemma kMagicHeader_eval: "kMagicHeader = 0x69636e73"
  by (simp add: kMagicHeader_def multichar_def)

lemma magic_bytes: "be_bytes kMagicHeader = [0x69, 0x63, 0x6e, 0x73]"
  by (simp add: kMagicHeader_eval be_bytes_def)

lemma find_type_zero: "fst ` set tbl \<inter> {n} = {} \<Longrightarrow> find_type tbl n = 0"
  by (induction tbl) auto

lemma FindIconType_unknown: "n \<notin> fst ` set kIconTypes \<Longrightarrow> FindIconType n = 0"
  unfolding FindIconType_def by (rule find_type_zero) simp

lemma FindIconType_known:
  "n \<in> fst ` set kIconTypes \<Longrightarrow>
     FindIconType n \<noteq> 0 \<and> GetFilenameFromType (FindIconType n) = Some n \<and>
     n \<noteq> [] \<and> CHR ''/'' \<notin> set n \<and> length n \<le> 19"
  unfolding FindIconType_def GetFilenameFromType_def kIconTypes_eval
  by (elim imageE, simp) (elim disjE; simp)


section \<open>The decoder reads chunk after chunk\<close>

lemma fread_exact:
  "length xs = n \<Longrightarrow>
     fread n \<lparr>unread = xs @ ys, at_eof = e\<rparr> = (xs, \<lparr>unread = ys, at_eof = e\<rparr>)"
  by (simp add: fread_def)

lemma fread_short:
  "length xs < n \<Longrightarrow> fread n \<lparr>unread = xs, at_eof = e\<rparr> = (xs, \<lparr>unread = [], at_eof = True\<rparr>)"
  by (simp add: fread_def)

lemma ReadUint32_bytes:
  "length bs = 4 \<Longrightarrow>
     ReadUint32 \<lparr>unread = bs @ ys, at_eof = e\<rparr> = (be_word bs, \<lparr>unread = ys, at_eof = e\<rparr>)"
  by (simp add: ReadUint32_def fread_exact)

lemma ReadUint32_word:
  "ReadUint32 \<lparr>unread = be_bytes w @ ys, at_eof = e\<rparr> = (w, \<lparr>unread = ys, at_eof = e\<rparr>)"
  by (simp add: ReadUint32_bytes length_be_bytes be_word_be_bytes)

lemma ReadUint32_short:
  "length xs < 4 \<Longrightarrow> ReadUint32 \<lparr>unread = xs, at_eof = e\<rparr> = (0, \<lparr>unread = [], at_eof = True\<rparr>)"
  by (simp add: ReadUint32_def fread_short)

lemma copy_payload_zero: "copy_payload 0 f acc = (True, f, acc)"
  by (subst copy_payload.simps) simp

lemma copy_payload_step:
  "0 < n \<Longrightarrow> k = (if n > kBufferSize then kBufferSize else n) \<Longrightarrow> length xs = k \<Longrightarrow>
     copy_payload n \<lparr>unread = xs @ ys, at_eof = e\<rparr> acc =
       copy_payload (n - k) \<lparr>unread = ys, at_eof = e\<rparr> (acc @ xs)"
  by (subst copy_payload.simps) (simp only: fread_exact Let_def if_True if_False prod.case simp_thms)

lemma copy_payload_all:
  "copy_payload (length b) \<lparr>unread = b @ ys, at_eof = e\<rparr> acc =
     (True, \<lparr>unread = ys, at_eof = e\<rparr>, acc @ b)"
proof (induction "length b" arbitrary: b acc rule: less_induct)
  case less
  show ?case
  proof (cases "length b = 0")
    case True
    then show ?thesis by (simp add: copy_payload_zero)
  next
    case False
    define k where "k = (if length b > kBufferSize then kBufferSize else length b)"
    have k: "0 < k" "k \<le> length b" using False by (auto simp: k_def kBufferSize_def)
    have split: "take k b @ (drop k b @ ys) = b @ ys"
      by (metis append_assoc append_take_drop_id)
    have lt: "length (take k b) = k" using k by simp
    have "copy_payload (length b) \<lparr>unread = take k b @ (drop k b @ ys), at_eof = e\<rparr> acc =
            copy_payload (length b - k) \<lparr>unread = drop k b @ ys, at_eof = e\<rparr> (acc @ take k b)"
      using False by (intro copy_payload_step [OF _ k_def lt]) simp
    also have "length b - k = length (drop k b)" by simp
    also have "copy_payload (length (drop k b)) \<lparr>unread = drop k b @ ys, at_eof = e\<rparr> (acc @ take k b) =
            (True, \<lparr>unread = ys, at_eof = e\<rparr>, (acc @ take k b) @ drop k b)"
      using k by (intro less) simp
    finally show ?thesis unfolding split by simp
  qed
qed


lemma unat_of_nat32: "m < 2 ^ 32 \<Longrightarrow> unat (of_nat m :: uint32) = m"
  by (simp add: unsigned_of_nat take_bit_nat_eq_self)

lemma chunk_size_facts:
  assumes "m = n + 8" "0 < n" "m < 2 ^ 32"
  shows "\<not> (of_nat m :: uint32) \<le> 8" and "unat ((of_nat m :: uint32) - 8) = n"
proof -
  have u: "unat (of_nat m :: uint32) = m" using assms(3) by (rule unat_of_nat32)
  show "\<not> (of_nat m :: uint32) \<le> 8"
    using u assms(1,2) by (simp add: word_le_nat_alt)
  have "(8 :: uint32) \<le> of_nat m" using u assms(1) by (simp add: word_le_nat_alt)
  then have "unat ((of_nat m :: uint32) - 8) = unat (of_nat m :: uint32) - unat (8 :: uint32)"
    by (rule unat_sub)
  then show "unat ((of_nat m :: uint32) - 8) = n" using u assms(1) by simp
qed

lemma CopyIconToIconset_chunk:
  assumes inp: "dec_in s = \<lparr>unread = tag @ be_bytes (of_nat (length b + 8)) @ b @ ys, at_eof = e\<rparr>"
    and tag: "length tag = 4" and ne: "be_word tag \<noteq> 0 \<or> \<not> e"
    and b: "b \<noteq> []" "length b + 8 < 2 ^ 32"
    and nm: "icon_name dir (be_word tag) = Some name" "name \<noteq> []" "CHR ''/'' \<notin> set name"
  shows "CopyIconToIconset dir s =
           (True, \<lparr>dec_in = \<lparr>unread = ys, at_eof = e\<rparr>,
                   dec_files = dec_files s @ [(dir @ ''/'' @ name, b)],
                   dec_log = dec_log s\<rparr>)"
proof -
  let ?sz = "of_nat (length b + 8) :: uint32"
  from nm(2,3) have opens: "\<not> (name = [] \<or> CHR ''/'' \<in> set name)" by simp
  have r1: "ReadUint32 (dec_in s) =
              (be_word tag, \<lparr>unread = be_bytes ?sz @ b @ ys, at_eof = e\<rparr>)"
    unfolding inp using tag by (rule ReadUint32_bytes)
  have r2: "ReadUint32 \<lparr>unread = be_bytes ?sz @ b @ ys, at_eof = e\<rparr> =
              (?sz, \<lparr>unread = b @ ys, at_eof = e\<rparr>)"
    by (rule ReadUint32_word)
  have big: "\<not> ?sz \<le> 8"
    by (rule chunk_size_facts(1) [OF refl]) (use b in simp_all)
  have pay: "unat (?sz - 8) = length b"
    by (rule chunk_size_facts(2) [OF refl]) (use b in simp_all)
  have cp: "copy_payload (unat (?sz - 8)) \<lparr>unread = b @ ys, at_eof = e\<rparr> [] =
              (True, \<lparr>unread = ys, at_eof = e\<rparr>, b)"
    unfolding pay using copy_payload_all [of b ys e "[]"] by simp
  from ne have first: "\<not> (be_word tag = 0 \<and> at_eof \<lparr>unread = be_bytes ?sz @ b @ ys, at_eof = e\<rparr>)"
    by simp
  show ?thesis
    unfolding CopyIconToIconset_def r1 prod.case if_not_P [OF first] r2 if_not_P [OF big]
      Let_def nm(1) option.case if_not_P [OF opens] cp
    by simp
qed

lemma CopyIconToIconset_eof:
  assumes "dec_in s = \<lparr>unread = xs, at_eof = e\<rparr>" "length xs < 4"
  shows "CopyIconToIconset dir s = (True, s\<lparr>dec_in := \<lparr>unread = [], at_eof = True\<rparr>\<rparr>)"
  unfolding CopyIconToIconset_def assms(1) ReadUint32_short [OF assms(2)] by simp

lemma icon_name_known:
  assumes "n \<in> fst ` set kIconTypes" "length dir + 21 \<le> MAXPATHLEN"
  shows "icon_name dir (FindIconType n) = Some n"
proof -
  from FindIconType_known [OF assms(1)]
  have g: "GetFilenameFromType (FindIconType n) = Some n" and l: "length n \<le> 19" by simp_all
  from l assms(2) have "strlcpy n (MAXPATHLEN - (length dir + 1)) = n"
    by (simp add: strlcpy_def)
  with assms(2) show ?thesis by (simp add: icon_name_def g Let_def)
qed

lemma read_icons_eof:
  "at_eof (dec_in s) \<Longrightarrow> read_icons dir s = (True, s)"
  by (subst read_icons.simps) simp

lemma read_icons_step:
  "\<not> at_eof (dec_in s) \<Longrightarrow> CopyIconToIconset dir s = (True, s') \<Longrightarrow>
     read_icons dir s = read_icons dir s'"
  by (subst read_icons.simps) simp


lemma read_icons_stream:
  assumes "\<forall>(n, b) \<in> set fs. n \<in> fst ` set kIconTypes \<and> b \<noteq> [] \<and> length b + 8 < 2 ^ 32"
    and "length dir + 21 \<le> MAXPATHLEN"
  shows "read_icons dir \<lparr>dec_in = \<lparr>unread = stream_of fs, at_eof = False\<rparr>, dec_files = F, dec_log = L\<rparr> =
           (True, \<lparr>dec_in = \<lparr>unread = [], at_eof = True\<rparr>,
                   dec_files = F @ under dir fs, dec_log = L\<rparr>)"
  using assms(1)
proof (induction fs arbitrary: F)
  case Nil
  let ?s = "\<lparr>dec_in = \<lparr>unread = [], at_eof = False\<rparr>, dec_files = F, dec_log = L\<rparr>"
  have "CopyIconToIconset dir ?s = (True, ?s\<lparr>dec_in := \<lparr>unread = [], at_eof = True\<rparr>\<rparr>)"
    by (rule CopyIconToIconset_eof [where xs = "[]" and e = False]) simp_all
  then have "read_icons dir ?s = read_icons dir (?s\<lparr>dec_in := \<lparr>unread = [], at_eof = True\<rparr>\<rparr>)"
    by (intro read_icons_step) simp_all
  also have "\<dots> = (True, ?s\<lparr>dec_in := \<lparr>unread = [], at_eof = True\<rparr>\<rparr>)"
    by (rule read_icons_eof) simp
  finally show ?case by (simp add: stream_of_def under_def)
next
  case (Cons f fs)
  obtain n b where f: "f = (n, b)" by (cases f)
  from Cons.prems f have n: "n \<in> fst ` set kIconTypes" and b: "b \<noteq> []" "length b + 8 < 2 ^ 32"
    and rest: "\<forall>(n, b) \<in> set fs. n \<in> fst ` set kIconTypes \<and> b \<noteq> [] \<and> length b + 8 < 2 ^ 32"
    by auto
  let ?t = "FindIconType n"
  let ?s = "\<lparr>dec_in = \<lparr>unread = stream_of (f # fs), at_eof = False\<rparr>, dec_files = F, dec_log = L\<rparr>"
  let ?s' = "\<lparr>dec_in = \<lparr>unread = stream_of fs, at_eof = False\<rparr>,
             dec_files = F @ [(dir @ ''/'' @ n, b)], dec_log = L\<rparr>"
  have st: "stream_of (f # fs) = be_bytes ?t @ be_bytes (of_nat (length b + 8)) @ b @ stream_of fs"
    by (simp add: stream_of_def f chunk_def)
  from FindIconType_known [OF n] have ns: "n \<noteq> []" "CHR ''/'' \<notin> set n" by simp_all
  have "CopyIconToIconset dir ?s =
          (True, \<lparr>dec_in = \<lparr>unread = stream_of fs, at_eof = False\<rparr>,
                  dec_files = dec_files ?s @ [(dir @ ''/'' @ n, b)], dec_log = dec_log ?s\<rparr>)"
  proof (rule CopyIconToIconset_chunk [where tag = "be_bytes ?t"])
    show "dec_in ?s = \<lparr>unread = be_bytes ?t @ be_bytes (of_nat (length b + 8)) @ b @ stream_of fs,
                        at_eof = False\<rparr>" by (simp add: st)
    show "icon_name dir (be_word (be_bytes ?t)) = Some n"
      unfolding be_word_be_bytes by (rule icon_name_known [OF n assms(2)])
  qed (use b ns in \<open>simp_all add: length_be_bytes\<close>)
  then have c: "CopyIconToIconset dir ?s = (True, ?s')" by simp
  have "read_icons dir ?s = read_icons dir ?s'"
    by (rule read_icons_step [OF _ c]) simp
  also have "\<dots> = (True, \<lparr>dec_in = \<lparr>unread = [], at_eof = True\<rparr>,
                   dec_files = (F @ [(dir @ ''/'' @ n, b)]) @ under dir fs, dec_log = L\<rparr>)"
    by (rule Cons.IH [OF rest])
  finally show ?case by (simp add: under_def f)
qed


section \<open>Paths\<close>

lemma find_end_le: "find_end p e \<le> e"
  by (induction e) auto

lemma find_end_no_slash: "0 < find_end p e \<Longrightarrow> p ! find_end p e \<noteq> CHR ''/''"
  by (induction e) auto

lemma find_begin_le: "find_begin p e \<le> e"
  by (induction e) auto

lemma find_begin_no_slash: "find_begin p e \<le> i \<Longrightarrow> i < e \<Longrightarrow> p ! i \<noteq> CHR ''/''"
proof (induction e)
  case 0
  then show ?case by simp
next
  case (Suc e)
  show ?case
  proof (cases "p ! e \<noteq> CHR ''/''")
    case True
    with Suc show ?thesis by (cases "i = e") auto
  next
    case False
    with Suc.prems show ?thesis by simp
  qed
qed

lemma find_end_id: "p ! e \<noteq> CHR ''/'' \<Longrightarrow> find_end p e = e"
  by (cases e) auto

lemma find_begin_zero: "\<forall>i < e. p ! i \<noteq> CHR ''/'' \<Longrightarrow> find_begin p e = 0"
  by (induction e) auto

lemma Basename_length: "Basename p = Some q \<Longrightarrow> length q < MAXPATHLEN"
  by (auto simp: Basename_def Let_def MAXPATHLEN_def split: if_splits)

lemma Basename_no_slash:
  assumes "Basename p = Some q" "2 \<le> length q"
  shows "CHR ''/'' \<notin> set q"
proof -
  from assms have ne: "p \<noteq> []" by (auto simp: Basename_def split: if_splits)
  define e where "e = find_end p (length p - 1)"
  define b where "b = find_begin p e"
  from assms(1) ne have q: "q = take (e - b + 1) (drop b p)"
    by (auto simp: Basename_def Let_def e_def b_def split: if_splits)
  have e_lt: "e < length p"
    unfolding e_def using find_end_le [of p "length p - 1"] ne by (cases p) auto
  have b_le: "b \<le> e" unfolding b_def by (rule find_begin_le)
  from q e_lt b_le have len: "length q = e - b + 1" by simp
  with assms(2) have "b < e" by simp
  then have "0 < e" by simp
  then have pe: "p ! e \<noteq> CHR ''/''" unfolding e_def by (rule find_end_no_slash)
  show ?thesis
  proof
    assume "CHR ''/'' \<in> set q"
    then obtain j where j: "j < length q" "q ! j = CHR ''/''" by (auto simp: in_set_conv_nth)
    from j(1) len e_lt have "q ! j = p ! (b + j)" unfolding q by simp
    with j(2) have sl: "p ! (b + j) = CHR ''/''" by simp
    from j(1) len b_le have "b + j \<le> e" by simp
    then consider "b + j = e" | "b + j < e" by linarith
    then show False
    proof cases
      case 1
      with sl pe show False by simp
    next
      case 2
      have "find_begin p e \<le> b + j" by (simp add: b_def)
      from find_begin_no_slash [OF this 2] sl show False by simp
    qed
  qed
qed

lemma Basename_id:
  assumes "q \<noteq> []" "CHR ''/'' \<notin> set q" "length q < MAXPATHLEN"
  shows "Basename q = Some q"
proof -
  have ns: "i < length q \<Longrightarrow> q ! i \<noteq> CHR ''/''" for i
    using assms(2) nth_mem by metis
  have e: "find_end q (length q - 1) = length q - 1"
    by (rule find_end_id, rule ns) (use assms(1) in simp)
  have b: "find_begin q (length q - 1) = 0"
    by (rule find_begin_zero) (use ns in simp)
  show ?thesis
    unfolding Basename_def Let_def e b using assms(1,3) by simp
qed

lemma strstr_found:
  "needle \<noteq> [] \<Longrightarrow> \<exists>k \<le> length xs. strstr (xs @ needle @ ys) needle = Some k"
proof (induction xs)
  case Nil
  then obtain c cs where "needle @ ys = c # cs" by (cases needle) auto
  moreover have "take (length needle) (needle @ ys) = needle" by simp
  ultimately show ?case by (metis append_Nil le_refl list.size(3) strstr.simps(2))
next
  case (Cons x xs)
  then obtain k where k: "k \<le> length xs" "strstr (xs @ needle @ ys) needle = Some k" by blast
  show ?case
  proof (cases "take (length needle) ((x # xs) @ needle @ ys) = needle")
    case True
    then have "strstr ((x # xs) @ needle @ ys) needle = Some 0" by simp
    then show ?thesis by blast
  next
    case False
    then have "strstr ((x # xs) @ needle @ ys) needle = Some (Suc k)" using k by simp
    with k(1) show ?thesis by auto
  qed
qed


lemma OpenIcnsFileForIconset_Some:
  assumes "OpenIcnsFileForIconset iconset_path = (Some (name, f0), log0)"
  shows "log0 = []" and "f0 = \<lparr>wdata = be_bytes kMagicHeader @ be_bytes 0, wpos = 8\<rparr>"
    and "\<exists>stem. name = stem @ ''.icns'' \<and> CHR ''/'' \<notin> set stem \<and> length stem + 8 < MAXPATHLEN"
proof -
  from assms obtain path where bp: "Basename iconset_path = Some path"
    by (auto simp: OpenIcnsFileForIconset_def split: option.splits)
  have l8: "length kIconsetExtension = 8" by (simp add: kIconsetExtension_def)
  from assms bp have long: "8 < length path"
    and name: "name = take (length path - 8) path @ ''.icns''"
    and f0: "f0 = WriteUint32 0 (WriteUint32 kMagicHeader \<lparr>wdata = [], wpos = 0\<rparr>)"
    and log0: "log0 = []"
    by (auto simp: OpenIcnsFileForIconset_def Let_def l8 kIcnsExtension_def
             split: if_splits)
  show "log0 = []" by (rule log0)
  have "WriteUint32 kMagicHeader \<lparr>wdata = [], wpos = 0\<rparr> =
          \<lparr>wdata = [] @ be_bytes kMagicHeader, wpos = 0 + 4\<rparr>"
    using WriteUint32_at_end [of "\<lparr>wdata = [], wpos = 0\<rparr>" kMagicHeader] by simp
  then show "f0 = \<lparr>wdata = be_bytes kMagicHeader @ be_bytes 0, wpos = 8\<rparr>"
    unfolding f0 using WriteUint32_at_end [of "\<lparr>wdata = be_bytes kMagicHeader, wpos = 4\<rparr>" 0]
    by (simp add: length_be_bytes)
  from Basename_no_slash [OF bp] long have "CHR ''/'' \<notin> set path" by simp
  then have "CHR ''/'' \<notin> set (take (length path - 8) path)"
    by (meson in_set_takeD)
  moreover from Basename_length [OF bp] long
  have "length (take (length path - 8) path) + 8 < MAXPATHLEN" by simp
  ultimately show "\<exists>stem. name = stem @ ''.icns'' \<and> CHR ''/'' \<notin> set stem \<and> length stem + 8 < MAXPATHLEN"
    using name by blast
qed

lemma GetIconsetPath_icns:
  assumes "CHR ''/'' \<notin> set stem" "length stem + 8 < MAXPATHLEN"
  shows "\<exists>dir. GetIconsetPath (stem @ ''.icns'') = (dir, []) \<and> dir \<noteq> [] \<and>
               length dir \<le> length stem + 8"
proof -
  let ?name = "stem @ ''.icns''"
  have "Basename ?name = Some ?name"
    by (rule Basename_id) (use assms in \<open>auto simp: MAXPATHLEN_def\<close>)
  moreover obtain k where k: "k \<le> length stem" "strstr ?name ''.icns'' = Some k"
    using strstr_found [of "''.icns''" stem "[]"] by auto
  ultimately have g: "GetIconsetPath ?name =
      (take k ?name @ strlcpy ''.iconset'' (MAXPATHLEN - k), [])"
    by (simp add: GetIconsetPath_def kIcnsExtension_def kIconsetExtension_def)
  have "strlcpy ''.iconset'' (MAXPATHLEN - k) = ''.iconset''"
    using k(1) assms(2) by (simp add: strlcpy_def)
  with g k(1) show ?thesis by simp
qed


section \<open>Properties of the decoder\<close>

lemma be_bytes_be_word_list: "length bs = 4 \<Longrightarrow> be_bytes (be_word bs) = bs"
proof -
  assume "length bs = 4"
  then obtain a b c d where "bs = [a, b, c, d]"
    by (auto simp: length_Suc_conv numeral_eq_Suc)
  then show ?thesis by (simp only: be_bytes_be_word)
qed

lemma OpenIcnsFileForReading_bad_magic:
  assumes "take 4 bytes \<noteq> be_bytes kMagicHeader"
  shows "OpenIcnsFileForReading (Some bytes) =
           (None, [PrintError ''This doesn't look like an Apple .icns file.''])"
proof (cases "length bytes < 4")
  case True
  have "kMagicHeader \<noteq> 0" by (simp add: kMagicHeader_eval)
  then show ?thesis
    unfolding OpenIcnsFileForReading_def option.case ReadUint32_short [OF True] by simp
next
  case False
  then have l: "length (take 4 bytes) = 4" by simp
  have "ReadUint32 \<lparr>unread = take 4 bytes @ drop 4 bytes, at_eof = False\<rparr> =
          (be_word (take 4 bytes), \<lparr>unread = drop 4 bytes, at_eof = False\<rparr>)"
    using l by (rule ReadUint32_bytes)
  then have r: "ReadUint32 \<lparr>unread = bytes, at_eof = False\<rparr> =
          (be_word (take 4 bytes), \<lparr>unread = drop 4 bytes, at_eof = False\<rparr>)"
    by simp
  have "be_word (take 4 bytes) \<noteq> kMagicHeader"
  proof
    assume "be_word (take 4 bytes) = kMagicHeader"
    then have "be_bytes (be_word (take 4 bytes)) = be_bytes kMagicHeader" by simp
    with be_bytes_be_word_list [OF l] assms show False by simp
  qed
  then show ?thesis
    unfolding OpenIcnsFileForReading_def option.case r by simp
qed

lemma OpenIcnsFileForReading_header:
  assumes "length magic = 4" "length tsize = 4" "be_word tsize \<noteq> 0"
  shows "OpenIcnsFileForReading (Some (magic @ tsize @ body)) =
           (if be_word magic \<noteq> kMagicHeader
            then (None, [PrintError ''This doesn't look like an Apple .icns file.''])
            else (Some \<lparr>unread = body, at_eof = False\<rparr>, []))"
  using assms(3)
  by (simp add: OpenIcnsFileForReading_def ReadUint32_bytes [OF assms(1)]
                ReadUint32_bytes [OF assms(2)])

text \<open>
  C7. A file whose first four bytes are not \<open>icns\<close> (a shorter file included) makes the
  decoder fail with the message for a bad header; no directory is created and no file is
  written, whatever the path is and whether or not \<open>mkdir\<close> would succeed.
\<close>

theorem bad_magic_creates_nothing:
  assumes "take 4 bytes \<noteq> [0x69, 0x63, 0x6e, 0x73]"
  shows "CreateIconsetFromIcns icns_path (Some bytes) mkdir_ok =
           \<lparr>dec_ok = False, iconset_dir = None, iconset_files = [],
            dec_messages = [PrintError ''This doesn't look like an Apple .icns file.'']\<rparr>"
proof -
  have "take 4 bytes \<noteq> be_bytes kMagicHeader"
    unfolding magic_bytes by (rule assms)
  then show ?thesis
    by (simp add: CreateIconsetFromIcns_def OpenIcnsFileForReading_bad_magic)
qed

theorem bad_magic_creates_nothing_witness:
  "take 4 [0x89, 0x50, 0x4e, 0x47, 0x0d, 0x0a :: byte] \<noteq> [0x69, 0x63, 0x6e, 0x73] \<and>
   CreateIconsetFromIcns ''x.icns'' (Some [0x89, 0x50, 0x4e, 0x47, 0x0d, 0x0a]) True =
     \<lparr>dec_ok = False, iconset_dir = None, iconset_files = [],
      dec_messages = [PrintError ''This doesn't look like an Apple .icns file.'']\<rparr>"
proof -
  have h: "take 4 [0x89, 0x50, 0x4e, 0x47, 0x0d, 0x0a :: byte] \<noteq> [0x69, 0x63, 0x6e, 0x73]"
    by simp
  from h bad_magic_creates_nothing [OF h, of "''x.icns''" True] show ?thesis by blast
qed

text \<open>
  C10. The decoder reads the tsize-size field and only tests it against zero. Two files
  that differ in nothing but that field, non-zero in both, decode to the same result:
  the same return value, directory, files and messages.
\<close>

theorem total_size_only_tested_for_zero:
  assumes "length magic = 4" and "length tsize1 = 4" and "length tsize2 = 4"
    and "be_word tsize1 \<noteq> 0" and "be_word tsize2 \<noteq> 0"
  shows "CreateIconsetFromIcns icns_path (Some (magic @ tsize1 @ body)) mkdir_ok =
         CreateIconsetFromIcns icns_path (Some (magic @ tsize2 @ body)) mkdir_ok"
  unfolding CreateIconsetFromIcns_def
    OpenIcnsFileForReading_header [OF assms(1,2,4)]
    OpenIcnsFileForReading_header [OF assms(1,3,5)] ..

theorem total_size_only_tested_for_zero_witness:
  "CreateIconsetFromIcns ''a.icns''
     (Some ([0x69, 0x63, 0x6e, 0x73] @ [0, 0, 0, 17] @ [0x69, 0x63, 0x70, 0x34, 0, 0, 0, 9, 0xAA])) True =
   CreateIconsetFromIcns ''a.icns''
     (Some ([0x69, 0x63, 0x6e, 0x73] @ [0xff, 0, 0, 1] @ [0x69, 0x63, 0x70, 0x34, 0, 0, 0, 9, 0xAA])) True \<and>
   dec_ok (CreateIconsetFromIcns ''a.icns''
     (Some ([0x69, 0x63, 0x6e, 0x73] @ [0xff, 0, 0, 1] @ [0x69, 0x63, 0x70, 0x34, 0, 0, 0, 9, 0xAA])) True)"
proof -
  have a: "be_word [0, 0, 0, 17] \<noteq> 0" and b: "be_word [0xff, 0, 0, 1] \<noteq> 0" by simp_all
  have c: "dec_ok (CreateIconsetFromIcns ''a.icns''
     (Some ([0x69, 0x63, 0x6e, 0x73] @ [0xff, 0, 0, 1] @ [0x69, 0x63, 0x70, 0x34, 0, 0, 0, 9, 0xAA])) True)"
    by code_simp
  from total_size_only_tested_for_zero [OF _ _ _ a b, of "[0x69, 0x63, 0x6e, 0x73]" "''a.icns''"
      "[0x69, 0x63, 0x70, 0x34, 0, 0, 0, 9, 0xAA]" True] c
  show ?thesis by simp
qed

text \<open>
  C5. \<open>GetIconsetPath\<close> cuts the base name at the first occurrence of \<open>.icns\<close>, found
  with \<open>strstr\<close>, not at the extension. For \<open>a.icns.icns\<close> the directory is
  \<open>a.iconset\<close>, and what stands before the extension, \<open>a.icns\<close>, is not preserved.
\<close>

theorem iconset_path_cut_at_first_occurrence:
  "GetIconsetPath ''a.icns.icns'' = (''a.iconset'', []) \<and>
   iconset_dir (CreateIconsetFromIcns ''a.icns.icns''
                  (Some [0x69, 0x63, 0x6e, 0x73, 0, 0, 0, 8]) True) = Some ''a.iconset''"
  by code_simp

text \<open>
  C9. A short read of the chunk type is taken for the end of the file: \<open>ReadUint32\<close>
  returns 0 and the end-of-file indicator is set, so \<open>CopyIconToIconset\<close> returns
  \<open>true\<close>. Three bytes after the last complete chunk do not stop the decoder, which
  reports success.
\<close>

theorem trailing_fragment_is_accepted:
  "CreateIconsetFromIcns ''a.icns''
     (Some [0x69, 0x63, 0x6e, 0x73, 0, 0, 0, 17,
            0x69, 0x63, 0x70, 0x34, 0, 0, 0, 9, 0xAA,
            1, 2, 3]) True =
   \<lparr>dec_ok = True, iconset_dir = Some ''a.iconset'',
    iconset_files = [(''a.iconset/icon_16x16.png'', [0xAA])], dec_messages = []\<rparr>"
  by code_simp


lemma CopyIconToIconset_small:
  assumes "dec_in s = \<lparr>unread = tag @ be_bytes len @ ys, at_eof = False\<rparr>" and "length tag = 4"
    and "len \<le> 8"
  shows "CopyIconToIconset dir s =
           (False, s\<lparr>dec_in := \<lparr>unread = ys, at_eof = False\<rparr>,
                     dec_log := dec_log s @ [PrintError ''Invalid size in .icns file'']\<rparr>)"
  using assms(3)
  by (simp add: CopyIconToIconset_def assms(1) ReadUint32_bytes [OF assms(2)] ReadUint32_word)

lemma CopyIconToIconset_large_log:
  assumes "dec_in s = \<lparr>unread = tag @ be_bytes len @ ys, at_eof = False\<rparr>" and "length tag = 4"
    and "\<not> len \<le> 8"
  shows "\<exists>m. dec_log (snd (CopyIconToIconset dir s)) = dec_log s @ m \<and>
             m \<in> {[], [PathOverrun], [PrintSystemError],
                   [PrintError ''Error copying from .icns file to iconset'']}"
proof -
  obtain ok icns3 target where
    cp: "copy_payload (unat (len - 8)) \<lparr>unread = ys, at_eof = False\<rparr> [] = (ok, icns3, target)"
    by (cases "copy_payload (unat (len - 8)) \<lparr>unread = ys, at_eof = False\<rparr> []")
  show ?thesis
    using assms(3) cp
    by (cases "icon_name dir (be_word tag)")
       (simp_all add: CopyIconToIconset_def assms(1) ReadUint32_bytes [OF assms(2)] ReadUint32_word Let_def)
qed

lemma CopyIconToIconset_large_ok:
  assumes inp: "dec_in s = \<lparr>unread = tag @ be_bytes len @ ys, at_eof = False\<rparr>"
    and tag: "length tag = 4" and big: "8 < len" and pay: "unat len - 8 \<le> length ys"
    and nm: "icon_name dir (be_word tag) = Some name" "name \<noteq> []" "CHR ''/'' \<notin> set name"
  shows "CopyIconToIconset dir s =
           (True, \<lparr>dec_in = \<lparr>unread = drop (unat len - 8) ys, at_eof = False\<rparr>,
                   dec_files = dec_files s @ [(dir @ ''/'' @ name, take (unat len - 8) ys)],
                   dec_log = dec_log s\<rparr>)"
proof -
  let ?b = "take (unat len - 8) ys"
  from big have u: "8 < unat len" by (simp add: word_less_nat_alt)
  have lb: "length ?b = unat len - 8" using pay by simp
  then have lb8: "length ?b + 8 = unat len" using u by simp
  have sz: "of_nat (length ?b + 8) = len" unfolding lb8 by simp
  have "CopyIconToIconset dir s =
          (True, \<lparr>dec_in = \<lparr>unread = drop (unat len - 8) ys, at_eof = False\<rparr>,
                  dec_files = dec_files s @ [(dir @ ''/'' @ name, ?b)], dec_log = dec_log s\<rparr>)"
  proof (rule CopyIconToIconset_chunk [OF _ tag _ _ _ nm])
    show "dec_in s = \<lparr>unread = tag @ be_bytes (of_nat (length ?b + 8)) @ ?b @ drop (unat len - 8) ys,
                       at_eof = False\<rparr>"
      unfolding sz inp by simp
    show "be_word tag \<noteq> 0 \<or> \<not> False" by simp
    show "?b \<noteq> []" using lb u by auto
    show "length ?b + 8 < 2 ^ 32" unfolding lb8 using unsigned_less [of len] by simp
  qed
  then show ?thesis .
qed

text \<open>
  C2. A chunk whose length field is 8 or less is a format error: \<open>CopyIconToIconset\<close>
  prints \<open>Invalid size in .icns file\<close> and returns \<open>false\<close>. That includes the value 8,
  the chunk with an empty payload. A length field above 8 is never answered with that
  message, and when the payload is there and the file can be created (its name is not
  empty and has no slash), the chunk is decoded.
\<close>

theorem chunk_length_format_error:
  assumes "dec_in s = \<lparr>unread = tag @ be_bytes len @ ys, at_eof = False\<rparr>" and "length tag = 4"
  shows "(len \<le> 8 \<longrightarrow>
            CopyIconToIconset dir s =
              (False, s\<lparr>dec_in := \<lparr>unread = ys, at_eof = False\<rparr>,
                        dec_log := dec_log s @ [PrintError ''Invalid size in .icns file'']\<rparr>)) \<and>
         (8 < len \<longrightarrow>
            dec_log (snd (CopyIconToIconset dir s)) \<noteq>
              dec_log s @ [PrintError ''Invalid size in .icns file'']) \<and>
         (8 < len \<and> unat len - 8 \<le> length ys \<and>
          icon_name dir (be_word tag) = Some name \<and> name \<noteq> [] \<and>
          CHR ''/'' \<notin> set name \<longrightarrow>
            CopyIconToIconset dir s =
              (True, \<lparr>dec_in = \<lparr>unread = drop (unat len - 8) ys, at_eof = False\<rparr>,
                      dec_files = dec_files s @ [(dir @ ''/'' @ name, take (unat len - 8) ys)],
                      dec_log = dec_log s\<rparr>))"
proof (intro conjI impI)
  assume "len \<le> 8"
  then show "CopyIconToIconset dir s =
      (False, s\<lparr>dec_in := \<lparr>unread = ys, at_eof = False\<rparr>,
                dec_log := dec_log s @ [PrintError ''Invalid size in .icns file'']\<rparr>)"
    by (rule CopyIconToIconset_small [OF assms])
next
  assume "8 < len"
  then have "\<not> len \<le> 8" by simp
  from CopyIconToIconset_large_log [OF assms this, of dir]
  show "dec_log (snd (CopyIconToIconset dir s)) \<noteq>
          dec_log s @ [PrintError ''Invalid size in .icns file'']"
    by auto
next
  assume "8 < len \<and> unat len - 8 \<le> length ys \<and>
          icon_name dir (be_word tag) = Some name \<and> name \<noteq> [] \<and>
          CHR ''/'' \<notin> set name"
  then show "CopyIconToIconset dir s =
      (True, \<lparr>dec_in = \<lparr>unread = drop (unat len - 8) ys, at_eof = False\<rparr>,
              dec_files = dec_files s @ [(dir @ ''/'' @ name, take (unat len - 8) ys)],
              dec_log = dec_log s\<rparr>)"
    using CopyIconToIconset_large_ok [OF assms] by blast
qed

theorem chunk_length_format_error_witness:
  "CopyIconToIconset ''a.iconset''
     \<lparr>dec_in = \<lparr>unread = [0x69, 0x63, 0x70, 0x34] @ be_bytes 8 @ [0xAA], at_eof = False\<rparr>,
      dec_files = [], dec_log = []\<rparr> =
     (False, \<lparr>dec_in = \<lparr>unread = [0xAA], at_eof = False\<rparr>, dec_files = [],
              dec_log = [PrintError ''Invalid size in .icns file'']\<rparr>) \<and>
   CopyIconToIconset ''a.iconset''
     \<lparr>dec_in = \<lparr>unread = [0x69, 0x63, 0x70, 0x34] @ be_bytes 9 @ [0xAA], at_eof = False\<rparr>,
      dec_files = [], dec_log = []\<rparr> =
     (True, \<lparr>dec_in = \<lparr>unread = [], at_eof = False\<rparr>,
             dec_files = [(''a.iconset/icon_16x16.png'', [0xAA])], dec_log = []\<rparr>)"
proof -
  have n: "icon_name ''a.iconset'' (be_word [0x69, 0x63, 0x70, 0x34]) = Some ''icon_16x16.png''"
    by code_simp
  have a: "CopyIconToIconset ''a.iconset''
     \<lparr>dec_in = \<lparr>unread = [0x69, 0x63, 0x70, 0x34] @ be_bytes 8 @ [0xAA], at_eof = False\<rparr>,
      dec_files = [], dec_log = []\<rparr> =
     (False, \<lparr>dec_in = \<lparr>unread = [0xAA], at_eof = False\<rparr>, dec_files = [],
              dec_log = [PrintError ''Invalid size in .icns file'']\<rparr>)"
    using chunk_length_format_error [of
        "\<lparr>dec_in = \<lparr>unread = [0x69, 0x63, 0x70, 0x34] @ be_bytes 8 @ [0xAA], at_eof = False\<rparr>,
          dec_files = [], dec_log = []\<rparr>" "[0x69, 0x63, 0x70, 0x34]" 8 "[0xAA]" "''a.iconset''"]
    by simp
  have b: "CopyIconToIconset ''a.iconset''
     \<lparr>dec_in = \<lparr>unread = [0x69, 0x63, 0x70, 0x34] @ be_bytes 9 @ [0xAA], at_eof = False\<rparr>,
      dec_files = [], dec_log = []\<rparr> =
     (True, \<lparr>dec_in = \<lparr>unread = [], at_eof = False\<rparr>,
             dec_files = [(''a.iconset/icon_16x16.png'', [0xAA])], dec_log = []\<rparr>)"
    using chunk_length_format_error [of
        "\<lparr>dec_in = \<lparr>unread = [0x69, 0x63, 0x70, 0x34] @ be_bytes 9 @ [0xAA], at_eof = False\<rparr>,
          dec_files = [], dec_log = []\<rparr>" "[0x69, 0x63, 0x70, 0x34]" 9 "[0xAA]" "''a.iconset''"
        "''icon_16x16.png''"] n
    by simp
  from a b show ?thesis ..
qed

text \<open>
  A whole run on a container whose only chunk has the length field 8, as the encoder
  writes it for an empty file: the directory is created and the run fails with the
  message for an invalid size.
\<close>

theorem empty_payload_chunk_rejected:
  "CreateIconsetFromIcns ''a.icns''
     (Some [0x69, 0x63, 0x6e, 0x73, 0, 0, 0, 16, 0x69, 0x63, 0x70, 0x34, 0, 0, 0, 8]) True =
   \<lparr>dec_ok = False, iconset_dir = Some ''a.iconset'', iconset_files = [],
    dec_messages = [PrintError ''Invalid size in .icns file'']\<rparr>"
  by code_simp

lemma char_of_byte_eq: "char_of (unat (t :: byte)) = c \<longleftrightarrow> unat t = of_char c"
proof -
  have "unat t < 2 ^ 8" using unsigned_less [of t] by simp
  then have "take_bit 8 (unat t) = unat t" by (simp add: take_bit_nat_eq_self)
  then show ?thesis by (simp add: char_of_eq_iff)
qed

lemma char_of_byte_nul: "char_of (unat (t :: byte)) = CHR 0x00 \<longleftrightarrow> t = 0"
  by (simp add: char_of_byte_eq unat_eq_0)

lemma char_of_byte_slash: "char_of (unat (t :: byte)) = CHR ''/'' \<longleftrightarrow> t = 0x2f"
proof -
  have "unat t = 47 \<longleftrightarrow> t = 47"
  proof
    assume "unat t = 47"
    then have "unat t = unat (47 :: byte)" by simp
    then show "t = 47" by (rule unsigned_word_eqI)
  qed simp
  then show ?thesis by (simp add: char_of_byte_eq)
qed

lemma icon_name_unknown:
  assumes un: "GetFilenameFromType (be_word [t0, t1, t2, t3]) = None"
    and nz: "t0 \<noteq> 0" "t1 \<noteq> 0" "t2 \<noteq> 0" "t3 \<noteq> 0"
    and len: "length dir + 16 \<le> MAXPATHLEN"
  shows "icon_name dir (be_word [t0, t1, t2, t3]) =
           Some (kUnknownFormatFilename @ map (\<lambda>t. char_of (unat t)) [t0, t1, t2, t3])"
proof -
  have c: "c_str (unknown_format (be_word [t0, t1, t2, t3])) =
             map (\<lambda>t. char_of (unat t)) [t0, t1, t2, t3]"
    unfolding unknown_format_be_word c_str_def using nz by (simp add: char_of_byte_nul)
  have l: "length kUnknownFormatFilename = 10" by (simp add: kUnknownFormatFilename_def)
  have p: "strlcpy kUnknownFormatFilename (MAXPATHLEN - (length dir + 1)) = kUnknownFormatFilename"
    using len l by (simp add: strlcpy_def)
  have q: "strlcpy (map (\<lambda>t. char_of (unat t)) [t0, t1, t2, t3])
             (MAXPATHLEN - (length dir + 1 + length kUnknownFormatFilename)) =
           map (\<lambda>t. char_of (unat t)) [t0, t1, t2, t3]"
    using len l by (simp add: strlcpy_def)
  have g: "\<not> MAXPATHLEN < length dir + 1 + length kUnknownFormatFilename"
    using len l by simp
  show ?thesis
    unfolding icon_name_def Let_def un option.case if_not_P [OF g] c p q ..
qed

text \<open>
  C8. For a chunk whose type is not in the table and has no zero byte and no slash among
  its four bytes, the decoder writes the payload to the file \<open>icon_data_\<close> followed by
  the four bytes as characters, in the order of the file. (The directory path must leave
  room for the name in the path buffer.)
\<close>

theorem unknown_type_file_name:
  assumes "dec_in s = \<lparr>unread = [t0, t1, t2, t3] @ be_bytes (of_nat (length b + 8)) @ b @ ys,
                        at_eof = e\<rparr>"
    and "GetFilenameFromType (be_word [t0, t1, t2, t3]) = None"
    and "\<forall>t \<in> set [t0, t1, t2, t3]. t \<noteq> 0 \<and> t \<noteq> 0x2f"
    and "b \<noteq> []" and "length b + 8 < 2 ^ 32"
    and "length dir + 16 \<le> MAXPATHLEN"
  shows "CopyIconToIconset dir s =
           (True, \<lparr>dec_in = \<lparr>unread = ys, at_eof = e\<rparr>,
                   dec_files = dec_files s @
                     [(dir @ ''/'' @ ''icon_data_'' @ map char_of_byte [t0, t1, t2, t3], b)],
                   dec_log = dec_log s\<rparr>)"
proof -
  let ?name = "kUnknownFormatFilename @ map (\<lambda>t. char_of (unat t)) [t0, t1, t2, t3]"
  from assms(3) have nz: "t0 \<noteq> 0" "t1 \<noteq> 0" "t2 \<noteq> 0" "t3 \<noteq> 0"
    and ns: "t0 \<noteq> 0x2f" "t1 \<noteq> 0x2f" "t2 \<noteq> 0x2f" "t3 \<noteq> 0x2f" by simp_all
  have nm: "icon_name dir (be_word [t0, t1, t2, t3]) = Some ?name"
    by (rule icon_name_unknown [OF assms(2) nz assms(6)])
  have sl: "CHR ''/'' \<notin> set ?name"
    using ns by (auto simp: kUnknownFormatFilename_def char_of_byte_slash [symmetric] simp del: char_of_byte_slash dest!: sym [of "CHR ''/''"])
  have "be_word [t0, t1, t2, t3] \<noteq> 0"
  proof
    assume "be_word [t0, t1, t2, t3] = 0"
    then have "be_bytes (be_word [t0, t1, t2, t3]) = be_bytes 0" by simp
    then have "[t0, t1, t2, t3] = be_bytes 0" by (simp only: be_bytes_be_word)
    with nz(1) show False by (simp add: be_bytes_def)
  qed
  then have ne: "be_word [t0, t1, t2, t3] \<noteq> 0 \<or> \<not> e" ..
  have "CopyIconToIconset dir s =
          (True, \<lparr>dec_in = \<lparr>unread = ys, at_eof = e\<rparr>,
                  dec_files = dec_files s @ [(dir @ ''/'' @ ?name, b)], dec_log = dec_log s\<rparr>)"
    by (rule CopyIconToIconset_chunk [OF assms(1) _ ne assms(4,5) nm _ sl])
       (simp_all add: kUnknownFormatFilename_def)
  then show ?thesis by (simp add: kUnknownFormatFilename_def char_of_byte_def)
qed

theorem unknown_type_file_name_witness:
  "CopyIconToIconset ''a.iconset''
     \<lparr>dec_in = \<lparr>unread = [0x54, 0x4f, 0x43, 0x20] @ be_bytes (of_nat (length [0xAA :: byte] + 8)) @
                          [0xAA] @ [],
                at_eof = False\<rparr>,
      dec_files = [], dec_log = []\<rparr> =
   (True, \<lparr>dec_in = \<lparr>unread = [], at_eof = False\<rparr>,
           dec_files = [(''a.iconset/icon_data_TOC '', [0xAA])], dec_log = []\<rparr>)"
proof -
  have u: "GetFilenameFromType (be_word [0x54, 0x4f, 0x43, 0x20]) = None" by code_simp
  have l: "length ''a.iconset'' + 16 \<le> MAXPATHLEN" by (simp add: MAXPATHLEN_def)
  have c: "map char_of_byte [0x54, 0x4f, 0x43, 0x20] = ''TOC ''" by code_simp
  show ?thesis
    using unknown_type_file_name [where s = "\<lparr>dec_in = \<lparr>unread = [0x54, 0x4f, 0x43, 0x20] @
            be_bytes (of_nat (length [0xAA :: byte] + 8)) @ [0xAA] @ [], at_eof = False\<rparr>,
            dec_files = [], dec_log = []\<rparr>" and ?t0.0 = "0x54" and ?t1.0 = "0x4f" and ?t2.0 = "0x43"
          and ?t3.0 = "0x20" and b = "[0xAA]" and ys = "[]" and e = False
          and dir = "''a.iconset''"] u l c
    by simp
qed

text \<open>
  A type with a zero byte in it: \<open>unknown_format\<close> is copied as a C string, so the name
  ends before the zero byte, here after one of the four bytes.
\<close>

theorem unknown_type_with_zero_byte:
  "CreateIconsetFromIcns ''a.icns''
     (Some [0x69, 0x63, 0x6e, 0x73, 0, 0, 0, 17, 0x61, 0, 0x62, 0x63, 0, 0, 0, 9, 0xAA]) True =
   \<lparr>dec_ok = True, iconset_dir = Some ''a.iconset'',
    iconset_files = [(''a.iconset/icon_data_a'', [0xAA])], dec_messages = []\<rparr> \<and>
   ''a.iconset/icon_data_a'' \<noteq>
     ''a.iconset/'' @ kUnknownFormatFilename @ map char_of_byte [0x61, 0, 0x62, 0x63]"
  by code_simp

section \<open>Properties of the encoder\<close>

lemma CreateIcnsFromIconset_run:
  assumes "OpenIcnsFileForIconset p = (Some (name, f0), log0)"
  shows "CreateIcnsFromIconset p (Some es) =
           (case write_entries es \<lparr>wdata = be_bytes kMagicHeader @ be_bytes 0, wpos = 8\<rparr> [] of
              (False, f', log') \<Rightarrow>
                \<lparr>enc_ok = False, icns_name = Some name, icns_bytes = wdata f', enc_log = log'\<rparr>
            | (True, f', log') \<Rightarrow>
                \<lparr>enc_ok = True, icns_name = Some name,
                 icns_bytes = wdata (WriteIcnsFileMetadata f'), enc_log = log'\<rparr>)"
  using OpenIcnsFileForIconset_Some [OF assms]
  by (simp add: CreateIcnsFromIconset_def assms)

lemma CreateIcnsFromIconset_rejected:
  assumes "OpenIcnsFileForIconset p = (None, log0)"
  shows "CreateIcnsFromIconset p (Some es) =
           \<lparr>enc_ok = False, icns_name = None, icns_bytes = [], enc_log = log0\<rparr>"
  by (simp add: CreateIcnsFromIconset_def assms)

lemma WriteIcnsFileMetadata_at_end:
  assumes "wpos f = length (wdata f)" "8 \<le> length (wdata f)"
  shows "wdata (WriteIcnsFileMetadata f) =
           take 4 (wdata f) @ be_bytes (of_nat (length (wdata f))) @ drop 8 (wdata f)"
  using assms
  by (simp add: WriteIcnsFileMetadata_def WriteUint32_def fwrite_def Let_def length_be_bytes)


text \<open>
  C6. An entry that is no dot entry and whose name is not in the table changes neither the
  return value of the run nor the container written: both are what they are without the
  entry. When the entries before it are processed without failure, the warning for it is
  printed.
\<close>

theorem unknown_name_is_skipped:
  assumes "\<not> is_dot n" and "n \<notin> fst ` set kIconTypes"
  shows "enc_ok (CreateIcnsFromIconset p (Some (pre @ (n, c) # post))) =
           enc_ok (CreateIcnsFromIconset p (Some (pre @ post))) \<and>
         icns_name (CreateIcnsFromIconset p (Some (pre @ (n, c) # post))) =
           icns_name (CreateIcnsFromIconset p (Some (pre @ post))) \<and>
         icns_bytes (CreateIcnsFromIconset p (Some (pre @ (n, c) # post))) =
           icns_bytes (CreateIcnsFromIconset p (Some (pre @ post))) \<and>
         (enc_ok (CreateIcnsFromIconset p (Some pre)) \<longrightarrow>
            SkipWarning n \<in> set (enc_log (CreateIcnsFromIconset p (Some (pre @ (n, c) # post)))))"
proof (cases "fst (OpenIcnsFileForIconset p)")
  case None
  then have "OpenIcnsFileForIconset p = (None, snd (OpenIcnsFileForIconset p))"
    by (metis prod.collapse)
  then show ?thesis by (simp add: CreateIcnsFromIconset_rejected)
next
  case (Some a)
  then obtain name f0 where op: "OpenIcnsFileForIconset p = (Some (name, f0), snd (OpenIcnsFileForIconset p))"
    by (cases a) (metis prod.collapse)
  let ?f = "\<lparr>wdata = be_bytes kMagicHeader @ be_bytes 0, wpos = 8\<rparr>"
  have un: "FindIconType n = 0" using assms(2) by (rule FindIconType_unknown)
  obtain ok1 f1 l1 where w1: "write_entries pre ?f [] = (ok1, f1, l1)"
    by (cases "write_entries pre ?f []")
  show ?thesis
  proof (cases ok1)
    case False
    with w1 show ?thesis
      by (simp add: CreateIcnsFromIconset_run [OF op] write_entries_append)
  next
    case True
    obtain ok2 f2 l2 where w2: "write_entries post f1 [] = (ok2, f2, l2)"
      by (cases "write_entries post f1 []")
    have a: "write_entries (pre @ post) ?f [] = (ok2, f2, l1 @ l2)"
      using w1 True w2 write_entries_log [of post f1 l1] by (simp add: write_entries_append)
    have "write_entries ((n, c) # post) f1 l1 = write_entries post f1 (l1 @ [SkipWarning n])"
      by (rule write_entries_unknown [OF assms(1) un])
    then have b: "write_entries (pre @ (n, c) # post) ?f [] = (ok2, f2, (l1 @ [SkipWarning n]) @ l2)"
      using w1 True w2 write_entries_log [of post f1 "l1 @ [SkipWarning n]"]
      by (simp add: write_entries_append)
    show ?thesis
      unfolding CreateIcnsFromIconset_run [OF op] a b by (cases ok2) simp_all
  qed
qed

theorem unknown_name_is_skipped_witness:
  "CreateIcnsFromIconset ''a.iconset''
     (Some ([(''icon_16x16.png'', Some [1])] @ (''notes.txt'', Some [2, 3]) # [(''icon_32x32.png'', Some [4])])) =
   \<lparr>enc_ok = True, icns_name = Some ''a.icns'',
    icns_bytes = icns_bytes (CreateIcnsFromIconset ''a.iconset''
                   (Some ([(''icon_16x16.png'', Some [1])] @ [(''icon_32x32.png'', Some [4])]))),
    enc_log = [SkipWarning ''notes.txt'']\<rparr>"
proof -
  have d: "\<not> is_dot ''notes.txt''" by code_simp
  have u: "''notes.txt'' \<notin> fst ` set kIconTypes" by (simp add: kIconTypes_def)
  have r: "CreateIcnsFromIconset ''a.iconset''
     (Some ([(''icon_16x16.png'', Some [1])] @ (''notes.txt'', Some [2, 3]) # [(''icon_32x32.png'', Some [4])])) =
     \<lparr>enc_ok = True, icns_name = Some ''a.icns'',
      icns_bytes = [0x69, 0x63, 0x6e, 0x73, 0, 0, 0, 26, 0x69, 0x63, 0x70, 0x34, 0, 0, 0, 9, 1,
                    0x69, 0x63, 0x70, 0x35, 0, 0, 0, 9, 4],
      enc_log = [SkipWarning ''notes.txt'']\<rparr>"
    by code_simp
  from unknown_name_is_skipped [OF d u, of "''a.iconset''" "[(''icon_16x16.png'', Some [1])]"
      "Some [2, 3]" "[(''icon_32x32.png'', Some [4])]"] r
  show ?thesis by simp
qed

lemma total_size_field:
  assumes "enc_ok (CreateIcnsFromIconset p es)"
  shows "be_word (take 4 (drop 4 (icns_bytes (CreateIcnsFromIconset p es)))) =
           of_nat (length (icns_bytes (CreateIcnsFromIconset p es)))"
proof -
  from assms obtain d where es: "es = Some d"
    by (cases es) (simp_all add: CreateIcnsFromIconset_def)
  from assms es obtain name f0 log0 where op: "OpenIcnsFileForIconset p = (Some (name, f0), log0)"
    by (cases "OpenIcnsFileForIconset p"; cases "fst (OpenIcnsFileForIconset p)")
       (auto simp: CreateIcnsFromIconset_def)
  let ?f = "\<lparr>wdata = be_bytes kMagicHeader @ be_bytes 0, wpos = 8\<rparr>"
  obtain ok f' log' where w: "write_entries d ?f [] = (ok, f', log')"
    by (cases "write_entries d ?f []")
  from assms have ok: "ok" unfolding es CreateIcnsFromIconset_run [OF op] w by (cases ok) simp_all
  have "wpos ?f = length (wdata ?f)" by (simp add: length_be_bytes)
  from write_entries_invariant [OF this w]
  have e: "wpos f' = length (wdata f')" and t: "take 8 (wdata f') = be_bytes kMagicHeader @ be_bytes 0"
    by (simp_all add: length_be_bytes)
  have "length (take 8 (wdata f')) = 8" unfolding t by (simp add: length_be_bytes)
  then have l8: "8 \<le> length (wdata f')" by simp
  have b: "icns_bytes (CreateIcnsFromIconset p es) =
             take 4 (wdata f') @ be_bytes (of_nat (length (wdata f'))) @ drop 8 (wdata f')"
    unfolding es CreateIcnsFromIconset_run [OF op] w using ok
    by (simp add: WriteIcnsFileMetadata_at_end [OF e l8])
  have len: "length (icns_bytes (CreateIcnsFromIconset p es)) = length (wdata f')"
    unfolding b using l8 by (simp add: length_be_bytes)
  have "take 4 (drop 4 (icns_bytes (CreateIcnsFromIconset p es))) = be_bytes (of_nat (length (wdata f')))"
    unfolding b using l8 by (simp add: length_be_bytes)
  then show ?thesis unfolding len by (simp add: be_word_be_bytes)
qed

text \<open>
  C3. After a successful run the four bytes at offset 4 of the container hold the length of
  the file, converted to \<open>uint32_t\<close>: for a container shorter than \<open>2^32\<close> bytes that is the
  exact length of the file, header and all chunks included.
\<close>

theorem total_size_is_file_length:
  assumes "enc_ok (CreateIcnsFromIconset p es)"
    and "length (icns_bytes (CreateIcnsFromIconset p es)) < 2 ^ 32"
  shows "unat (be_word (take 4 (drop 4 (icns_bytes (CreateIcnsFromIconset p es))))) =
           length (icns_bytes (CreateIcnsFromIconset p es))"
  unfolding total_size_field [OF assms(1)] using assms(2) by (rule unat_of_nat32)

theorem total_size_is_file_length_witness:
  "enc_ok (CreateIcnsFromIconset ''a.iconset'' (Some [(''.'', None), (''icon_32x32.png'', Some [7, 7, 7])])) \<and>
   length (icns_bytes (CreateIcnsFromIconset ''a.iconset''
             (Some [(''.'', None), (''icon_32x32.png'', Some [7, 7, 7])]))) = 19 \<and>
   unat (be_word (take 4 (drop 4 (icns_bytes (CreateIcnsFromIconset ''a.iconset''
             (Some [(''.'', None), (''icon_32x32.png'', Some [7, 7, 7])])))))) = 19"
proof -
  let ?r = "CreateIcnsFromIconset ''a.iconset'' (Some [(''.'', None), (''icon_32x32.png'', Some [7, 7, 7])])"
  have a: "enc_ok ?r" by code_simp
  have b: "length (icns_bytes ?r) = 19" by code_simp
  then have c: "length (icns_bytes ?r) < 2 ^ 32" by simp
  from total_size_is_file_length [OF a c] a b show ?thesis by simp
qed

lemma write_entries_filter_dots:
  "write_entries d f log = write_entries (filter (\<lambda>e. \<not> is_dot (fst e)) d) f log"
proof (induction d arbitrary: f log)
  case Nil
  show ?case by simp
next
  case (Cons e d)
  obtain n c where e: "e = (n, c)" by (cases e)
  show ?case
  proof (cases "is_dot n")
    case True
    then show ?thesis unfolding e using Cons.IH by (simp del: write_entries.simps add: write_entries_dot)
  next
    case False
    show ?thesis
    proof (cases "FindIconType n = 0")
      case True
      with False show ?thesis unfolding e using Cons.IH
        by (simp del: write_entries.simps add: write_entries_unknown)
    next
      case known: False
      obtain ok f' m where w: "WriteIconToFile c (FindIconType n) f = (ok, f', m)"
        by (cases "WriteIconToFile c (FindIconType n) f")
      show ?thesis
      proof (cases ok)
        case True
        with w have w': "WriteIconToFile c (FindIconType n) f = (True, f', m)" by simp
        show ?thesis unfolding e using False Cons.IH
          by (simp del: write_entries.simps add: write_entries_ok [OF False known w'])
      next
        case no: False
        with w have w': "WriteIconToFile c (FindIconType n) f = (False, f', m)" by simp
        show ?thesis unfolding e using False
          by (simp del: write_entries.simps add: write_entries_fail [OF False known w'])
      qed
    qed
  qed
qed

lemma single_icon_run:
  assumes op: "OpenIcnsFileForIconset p = (Some (name, f0), log0)"
    and d: "filter (\<lambda>e. \<not> is_dot (fst e)) d = [(n, Some payload)]"
    and n: "n \<in> fst ` set kIconTypes"
  shows "CreateIcnsFromIconset p (Some d) =
           \<lparr>enc_ok = True, icns_name = Some name,
            icns_bytes = be_bytes kMagicHeader @ be_bytes (of_nat (16 + length payload)) @
                         be_bytes (FindIconType n) @ be_bytes (of_nat (length payload + 8)) @ payload,
            enc_log = []\<rparr>"
proof -
  let ?f = "\<lparr>wdata = be_bytes kMagicHeader @ be_bytes 0, wpos = 8\<rparr>"
  let ?c = "chunk (FindIconType n) payload"
  let ?f' = "\<lparr>wdata = wdata ?f @ ?c, wpos = length (wdata ?f) + length ?c\<rparr>"
  from FindIconType_known [OF n] have known: "FindIconType n \<noteq> 0" by simp
  have "(n, Some payload) \<in> set (filter (\<lambda>e. \<not> is_dot (fst e)) d)"
    unfolding d by simp
  then have nd: "\<not> is_dot n" by simp
  have e: "wpos ?f = length (wdata ?f)" by (simp add: length_be_bytes)
  have "write_entries d ?f [] = write_entries [(n, Some payload)] ?f []"
    unfolding d [symmetric] by (rule write_entries_filter_dots)
  also have "\<dots> = write_entries [] ?f' ([] @ [])"
    by (rule write_entries_ok [OF nd known WriteIconToFile_at_end [OF e]])
  finally have w: "write_entries d ?f [] = (True, ?f', [])" by simp
  have e': "wpos ?f' = length (wdata ?f')" by simp
  have l: "8 \<le> length (wdata ?f')" by (simp add: length_be_bytes)
  have "wdata (WriteIcnsFileMetadata ?f') =
          take 4 (wdata ?f') @ be_bytes (of_nat (length (wdata ?f'))) @ drop 8 (wdata ?f')"
    by (rule WriteIcnsFileMetadata_at_end [OF e' l])
  also have "\<dots> = be_bytes kMagicHeader @ be_bytes (of_nat (16 + length payload)) @
                   be_bytes (FindIconType n) @ be_bytes (of_nat (length payload + 8)) @ payload"
    by (simp add: length_be_bytes chunk_def add.commute)
  finally show ?thesis
    unfolding CreateIcnsFromIconset_run [OF op] w by simp
qed

lemma icp4_bytes: "be_bytes (FindIconType ''icon_16x16.png'') = [0x69, 0x63, 0x70, 0x34]"
  by (simp add: FindIconType_def kIconTypes_eval be_bytes_def)

lemma icon_16x16_known: "''icon_16x16.png'' \<in> fst ` set kIconTypes"
  by (simp add: kIconTypes_def)

lemma a_iconset_single:
  "CreateIcnsFromIconset ''a.iconset'' (Some [(''icon_16x16.png'', Some b)]) =
     \<lparr>enc_ok = True, icns_name = Some ''a.icns'',
      icns_bytes = [0x69, 0x63, 0x6e, 0x73] @ be_bytes (of_nat (16 + length b)) @
                   [0x69, 0x63, 0x70, 0x34] @ be_bytes (of_nat (length b + 8)) @ b,
      enc_log = []\<rparr>"
proof -
  have op: "OpenIcnsFileForIconset ''a.iconset'' =
              (Some (''a.icns'', \<lparr>wdata = [0x69, 0x63, 0x6e, 0x73, 0, 0, 0, 0], wpos = 8\<rparr>), [])"
    by code_simp
  have f: "filter (\<lambda>e. \<not> is_dot (fst e)) [(''icon_16x16.png'', Some b)] = [(''icon_16x16.png'', Some b)]"
    by (simp add: is_dot_def)
  show ?thesis
    unfolding single_icon_run [OF op f icon_16x16_known] icp4_bytes magic_bytes ..
qed

lemma a_iconset_single_fields:
  "be_word (take 4 (drop 4 (icns_bytes
       (CreateIcnsFromIconset ''a.iconset'' (Some [(''icon_16x16.png'', Some b)]))))) =
     of_nat (16 + length b) \<and>
   be_word (take 4 (drop 12 (icns_bytes
       (CreateIcnsFromIconset ''a.iconset'' (Some [(''icon_16x16.png'', Some b)]))))) =
     of_nat (length b + 8) \<and>
   length (icns_bytes (CreateIcnsFromIconset ''a.iconset'' (Some [(''icon_16x16.png'', Some b)]))) =
     16 + length b \<and>
   enc_ok (CreateIcnsFromIconset ''a.iconset'' (Some [(''icon_16x16.png'', Some b)]))"
  unfolding a_iconset_single by (simp add: length_be_bytes be_word_be_bytes)

lemma word32_wraps: "(of_nat 4294967296 :: uint32) = 0"
  by simp

text \<open>
  The bound is needed. With one icon of \<open>2^32 - 16\<close> bytes the run succeeds, the
  container is \<open>2^32\<close> bytes long and the field holds 0.
\<close>

theorem total_size_wraps_at_4GiB:
  "enc_ok (CreateIcnsFromIconset ''a.iconset''
             (Some [(''icon_16x16.png'', Some (replicate 4294967280 0))])) \<and>
   length (icns_bytes (CreateIcnsFromIconset ''a.iconset''
             (Some [(''icon_16x16.png'', Some (replicate 4294967280 0))]))) = 4294967296 \<and>
   unat (be_word (take 4 (drop 4 (icns_bytes (CreateIcnsFromIconset ''a.iconset''
             (Some [(''icon_16x16.png'', Some (replicate 4294967280 0))])))))) = 0"
proof -
  have l: "16 + length (replicate 4294967280 (0 :: byte)) = 4294967296"
    by (simp only: length_replicate)
  show ?thesis
    using a_iconset_single_fields [of "replicate 4294967280 0"]
    unfolding l word32_wraps by simp
qed

text \<open>
  C4. An iconset whose only entry that is no dot entry is \<open>icon_16x16.png\<close>, with a
  payload of \<open>N\<close> bytes, \<open>N + 8 < 2^32\<close>: the run succeeds and the container is the magic
  header, the total-size field written from \<open>16 + N\<close>, the type \<open>icp4\<close>, the chunk-size
  field with the value \<open>8 + N\<close> and the payload. It is \<open>16 + N\<close> bytes long.
\<close>

theorem single_icon_container:
  assumes "OpenIcnsFileForIconset p = (Some (name, f0), log0)"
    and "filter (\<lambda>e. \<not> is_dot (fst e)) d = [(''icon_16x16.png'', Some payload)]"
    and "length payload + 8 < 2 ^ 32"
  shows "CreateIcnsFromIconset p (Some d) =
           \<lparr>enc_ok = True, icns_name = Some name,
            icns_bytes = [0x69, 0x63, 0x6e, 0x73] @ be_bytes (of_nat (16 + length payload)) @
                         [0x69, 0x63, 0x70, 0x34] @ be_bytes (of_nat (length payload + 8)) @ payload,
            enc_log = []\<rparr> \<and>
         length (icns_bytes (CreateIcnsFromIconset p (Some d))) = 16 + length payload \<and>
         unat (be_word (take 4 (drop 12 (icns_bytes (CreateIcnsFromIconset p (Some d)))))) =
           8 + length payload"
proof -
  have r: "CreateIcnsFromIconset p (Some d) =
           \<lparr>enc_ok = True, icns_name = Some name,
            icns_bytes = [0x69, 0x63, 0x6e, 0x73] @ be_bytes (of_nat (16 + length payload)) @
                         [0x69, 0x63, 0x70, 0x34] @ be_bytes (of_nat (length payload + 8)) @ payload,
            enc_log = []\<rparr>"
    unfolding single_icon_run [OF assms(1,2) icon_16x16_known] icp4_bytes magic_bytes ..
  have u: "unat (of_nat (length payload + 8) :: uint32) = length payload + 8"
    using assms(3) by (rule unat_of_nat32)
  show ?thesis
    unfolding r using u by (simp add: length_be_bytes be_word_be_bytes)
qed

theorem single_icon_container_witness:
  "CreateIcnsFromIconset ''icons/app.iconset''
     (Some [(''.'', None), (''..'', None), (''icon_16x16.png'', Some [1, 2, 3])]) =
     \<lparr>enc_ok = True, icns_name = Some ''app.icns'',
      icns_bytes = [0x69, 0x63, 0x6e, 0x73, 0, 0, 0, 19, 0x69, 0x63, 0x70, 0x34, 0, 0, 0, 11, 1, 2, 3],
      enc_log = []\<rparr>"
proof -
  have op: "OpenIcnsFileForIconset ''icons/app.iconset'' =
              (Some (''app.icns'', \<lparr>wdata = [0x69, 0x63, 0x6e, 0x73, 0, 0, 0, 0], wpos = 8\<rparr>), [])"
    by code_simp
  have f: "filter (\<lambda>e. \<not> is_dot (fst e))
             [(''.'', None), (''..'', None), (''icon_16x16.png'', Some [1, 2, 3 :: byte])] =
           [(''icon_16x16.png'', Some [1, 2, 3])]"
    by (simp add: is_dot_def)
  have l: "length [1, 2, 3 :: byte] + 8 < 2 ^ 32" by simp
  from single_icon_container [OF op f l] show ?thesis by (simp add: be_bytes_def)
qed

text \<open>
  With a payload of \<open>2^32 - 8\<close> bytes the run succeeds as well, and the chunk-size field
  holds 0, where \<open>8 + N\<close> is \<open>2^32\<close>.
\<close>

theorem chunk_size_wraps_at_4GiB:
  "enc_ok (CreateIcnsFromIconset ''a.iconset''
             (Some [(''icon_16x16.png'', Some (replicate 4294967288 0))])) \<and>
   unat (be_word (take 4 (drop 12 (icns_bytes (CreateIcnsFromIconset ''a.iconset''
             (Some [(''icon_16x16.png'', Some (replicate 4294967288 0))])))))) = 0 \<and>
   8 + length (replicate 4294967288 (0 :: byte)) = 4294967296"
proof -
  have l: "length (replicate 4294967288 (0 :: byte)) + 8 = 4294967296"
    by (simp only: length_replicate)
  show ?thesis
    using a_iconset_single_fields [of "replicate 4294967288 0"] l
    unfolding l word32_wraps by simp
qed

section \<open>Round trip\<close>

lemma known_entries:
  assumes "\<forall>(n, c) \<in> set d. is_dot n \<or> (n \<in> fst ` set kIconTypes \<and> (\<exists>b. c = Some b \<and> b \<noteq> []))"
  shows "readable d" and "chunks d = stream_of (visible_files d)" and "warnings d = []"
    and "\<forall>(n, b) \<in> set (visible_files d). n \<in> fst ` set kIconTypes \<and> b \<noteq> []"
  using assms
proof (induction d)
  case Nil
  {
    case 1 show ?case by (simp add: readable_def)
  next
    case 2 show ?case by (simp add: stream_of_def)
  next
    case 3 show ?case by simp
  next
    case 4 show ?case by simp
  }
next
  case (Cons e d)
  obtain n c where e: "e = (n, c)" by (cases e)
  {
    case 1
    then have "readable d" using Cons.IH(1) by simp
    with 1 show ?case unfolding e by (auto simp: readable_def)
  next
    case 2
    then have ih: "chunks d = stream_of (visible_files d)" using Cons.IH(2) by simp
    show ?case
    proof (cases "is_dot n")
      case True
      then show ?thesis unfolding e using ih by simp
    next
      case False
      with 2 e obtain b where "n \<in> fst ` set kIconTypes" "c = Some b" by auto
      with False FindIconType_known [of n] ih show ?thesis
        unfolding e by (simp add: stream_of_def)
    qed
  next
    case 3
    then have ih: "warnings d = []" using Cons.IH(3) by simp
    show ?case
    proof (cases "is_dot n")
      case True
      then show ?thesis unfolding e using ih by simp
    next
      case False
      with 3 e have "n \<in> fst ` set kIconTypes" by auto
      with FindIconType_known [of n] ih show ?thesis unfolding e by simp
    qed
  next
    case 4
    then have ih: "\<forall>(n, b) \<in> set (visible_files d). n \<in> fst ` set kIconTypes \<and> b \<noteq> []"
      using Cons.IH(4) by simp
    show ?case
    proof (cases "is_dot n")
      case True
      then show ?thesis unfolding e using ih by simp
    next
      case False
      with 4 e obtain b where "n \<in> fst ` set kIconTypes" "c = Some b" "b \<noteq> []" by auto
      with False ih show ?thesis unfolding e by simp
    qed
  }
qed

lemma stream_of_Cons: "stream_of ((n, b) # fs) = chunk (FindIconType n) b @ stream_of fs"
  by (simp add: stream_of_def)

lemma payload_le_stream: "(n, b) \<in> set fs \<Longrightarrow> length b + 8 \<le> length (stream_of fs)"
proof (induction fs)
  case Nil
  then show ?case by simp
next
  case (Cons f fs)
  obtain m c where f: "f = (m, c)" by (cases f)
  show ?case
  proof (cases "(n, b) = f")
    case True
    then show ?thesis unfolding f stream_of_Cons by (simp add: chunk_def length_be_bytes)
  next
    case False
    with Cons have "length b + 8 \<le> length (stream_of fs)" by simp
    then show ?thesis unfolding f stream_of_Cons by simp
  qed
qed

lemma set_visible_files:
  "set (visible_files d) = {(n, b). (n, Some b) \<in> set d \<and> \<not> is_dot n}"
proof (induction d)
  case Nil
  show ?case by simp
next
  case (Cons e d)
  obtain n c where e: "e = (n, c)" by (cases e)
  show ?case unfolding e using Cons.IH by (cases c) auto
qed

lemma distinct_visible_files:
  "distinct (map fst d) \<Longrightarrow> distinct (map fst (visible_files d))"
proof (induction d)
  case Nil
  show ?case by simp
next
  case (Cons e d)
  obtain n c where e: "e = (n, c)" by (cases e)
  from Cons.prems have nin: "n \<notin> fst ` set d" and dd: "distinct (map fst d)"
    unfolding e by simp_all
  have "fst ` set (visible_files d) \<subseteq> fst ` set d"
    unfolding set_visible_files by force
  with nin have "n \<notin> fst ` set (visible_files d)" by blast
  with Cons.IH [OF dd] show ?case unfolding e by (cases c) auto
qed

lemma distinct_under: "distinct (map fst fs) \<Longrightarrow> distinct (map fst (under dir fs))"
proof -
  assume d: "distinct (map fst fs)"
  have "map fst (under dir fs) = map (\<lambda>n. dir @ ''/'' @ n) (map fst fs)"
    by (simp add: under_def case_prod_beta)
  moreover have "inj (\<lambda>n. dir @ ''/'' @ n)" by (simp add: inj_on_def)
  ultimately show ?thesis using d by (simp add: distinct_map inj_on_def)
qed

lemma final_files_permuted:
  assumes "distinct (map fst d)" "mset d' = mset d"
  shows "final_files (under dir (visible_files d')) = map_of (under dir (visible_files d))"
proof -
  from assms(2) have s: "set d' = set d" by (rule mset_eq_setD)
  from assms(2) have "mset (map fst d') = mset (map fst d)" by simp
  with assms(1) have dd': "distinct (map fst d')" by (metis mset_eq_imp_distinct_iff)
  have a: "distinct (map fst (rev (under dir (visible_files d'))))"
    using distinct_under [OF distinct_visible_files [OF dd'], of dir]
    by (simp add: rev_map [symmetric])
  have b: "distinct (map fst (under dir (visible_files d)))"
    by (rule distinct_under [OF distinct_visible_files [OF assms(1)]])
  have "set (rev (under dir (visible_files d'))) = set (under dir (visible_files d))"
    by (simp add: under_def set_visible_files s)
  with a b show ?thesis unfolding final_files_def by (simp add: map_of_inject_set)
qed

lemma encode_known_entries:
  assumes op: "OpenIcnsFileForIconset p = (Some (name, f0), log0)"
    and kn: "\<forall>(n, c) \<in> set d. is_dot n \<or> (n \<in> fst ` set kIconTypes \<and> (\<exists>b. c = Some b \<and> b \<noteq> []))"
  shows "CreateIcnsFromIconset p (Some d) =
           \<lparr>enc_ok = True, icns_name = Some name,
            icns_bytes = be_bytes kMagicHeader @
                         be_bytes (of_nat (8 + length (stream_of (visible_files d)))) @
                         stream_of (visible_files d),
            enc_log = []\<rparr>"
proof -
  let ?f = "\<lparr>wdata = be_bytes kMagicHeader @ be_bytes 0, wpos = 8\<rparr>"
  let ?s = "stream_of (visible_files d)"
  let ?f' = "\<lparr>wdata = wdata ?f @ ?s, wpos = length (wdata ?f) + length ?s\<rparr>"
  have e: "wpos ?f = length (wdata ?f)" by (simp add: length_be_bytes)
  have w: "write_entries d ?f [] = (True, ?f', [])"
    using write_entries_readable [OF known_entries(1) [OF kn] e, of "[]"]
    unfolding known_entries(2) [OF kn] known_entries(3) [OF kn] by simp
  have e': "wpos ?f' = length (wdata ?f')" by simp
  have l: "8 \<le> length (wdata ?f')" by (simp add: length_be_bytes)
  have "wdata (WriteIcnsFileMetadata ?f') =
          take 4 (wdata ?f') @ be_bytes (of_nat (length (wdata ?f'))) @ drop 8 (wdata ?f')"
    by (rule WriteIcnsFileMetadata_at_end [OF e' l])
  also have "\<dots> = be_bytes kMagicHeader @ be_bytes (of_nat (8 + length ?s)) @ ?s"
    by (simp add: length_be_bytes)
  finally show ?thesis
    unfolding CreateIcnsFromIconset_run [OF op] w by simp
qed

lemma decode_stream:
  assumes fs: "\<forall>(n, b) \<in> set fs. n \<in> fst ` set kIconTypes \<and> b \<noteq> []"
    and total: "8 + length (stream_of fs) < 2 ^ 32"
    and path: "GetIconsetPath name = (dir, [])" "dir \<noteq> []" "length dir + 21 \<le> MAXPATHLEN"
  shows "CreateIconsetFromIcns name
           (Some (be_bytes kMagicHeader @ be_bytes (of_nat (8 + length (stream_of fs))) @ stream_of fs))
           True =
         \<lparr>dec_ok = True, iconset_dir = Some dir, iconset_files = under dir fs, dec_messages = []\<rparr>"
proof -
  let ?L = "8 + length (stream_of fs)"
  have "unat (of_nat ?L :: uint32) = ?L" using total by (rule unat_of_nat32)
  then have "unat (of_nat ?L :: uint32) \<noteq> 0" by simp
  then have nz: "be_word (be_bytes (of_nat ?L)) \<noteq> 0"
    unfolding be_word_be_bytes by (metis unsigned_0)
  have op: "OpenIcnsFileForReading (Some (be_bytes kMagicHeader @ be_bytes (of_nat ?L) @ stream_of fs)) =
              (Some \<lparr>unread = stream_of fs, at_eof = False\<rparr>, [])"
    unfolding OpenIcnsFileForReading_header [OF length_be_bytes length_be_bytes nz]
    by (simp add: be_word_be_bytes)
  have fs': "\<forall>(n, b) \<in> set fs. n \<in> fst ` set kIconTypes \<and> b \<noteq> [] \<and> length b + 8 < 2 ^ 32"
  proof (clarify, intro conjI)
    fix n b assume m: "(n, b) \<in> set fs"
    with fs show "n \<in> fst ` set kIconTypes" and "b \<noteq> []" by auto
    from payload_le_stream [OF m] total show "length b + 8 < 2 ^ 32" by simp
  qed
  have rd: "read_icons dir \<lparr>dec_in = \<lparr>unread = stream_of fs, at_eof = False\<rparr>,
                             dec_files = [], dec_log = [] @ []\<rparr> =
              (True, \<lparr>dec_in = \<lparr>unread = [], at_eof = True\<rparr>,
                      dec_files = [] @ under dir fs, dec_log = [] @ []\<rparr>)"
    by (rule read_icons_stream [OF fs' path(3)])
  show ?thesis
    unfolding CreateIconsetFromIcns_def op prod.case option.case path(1) rd
    using path(2) by (simp add: IsEmpty_def)
qed

text \<open>
  C1. Round trip. The iconset path is one the encoder accepts; every entry of the
  directory that is no dot entry has a name of the table and a payload that is not empty;
  names are distinct, as in a directory; the container is shorter than \<open>2^32\<close> bytes; and
  the name of the container leaves room in the decoder's path buffer. Then, in whatever
  order \<open>readdir\<close> lists the entries, the encoder succeeds, and the decoder, run on the
  container, succeeds and writes one file for each entry, under the name of the entry and
  with its bytes. The directory it leaves does not depend on the order.
\<close>

theorem roundtrip_nonempty_payloads:
  assumes "OpenIcnsFileForIconset iconset_path = (Some (name, f0), log0)"
    and "length name + 24 \<le> MAXPATHLEN"
    and "\<forall>(n, c) \<in> set d. is_dot n \<or> (n \<in> fst ` set kIconTypes \<and> (\<exists>b. c = Some b \<and> b \<noteq> []))"
    and "distinct (map fst d)"
    and "mset listing = mset d"
    and "length (icns_bytes (CreateIcnsFromIconset iconset_path (Some listing))) < 2 ^ 32"
  shows "enc_ok (CreateIcnsFromIconset iconset_path (Some listing)) \<and>
         icns_name (CreateIcnsFromIconset iconset_path (Some listing)) = Some name \<and>
         CreateIconsetFromIcns name
             (Some (icns_bytes (CreateIcnsFromIconset iconset_path (Some listing)))) True =
           \<lparr>dec_ok = True, iconset_dir = Some (fst (GetIconsetPath name)),
            iconset_files = under (fst (GetIconsetPath name)) (visible_files listing),
            dec_messages = []\<rparr> \<and>
         final_files (under (fst (GetIconsetPath name)) (visible_files listing)) =
           map_of (under (fst (GetIconsetPath name)) (visible_files d))"
proof -
  from assms(5) have s: "set listing = set d" by (rule mset_eq_setD)
  from assms(3) have kn: "\<forall>(n, c) \<in> set listing.
      is_dot n \<or> (n \<in> fst ` set kIconTypes \<and> (\<exists>b. c = Some b \<and> b \<noteq> []))"
    unfolding s .
  let ?fs = "visible_files listing"
  have enc: "CreateIcnsFromIconset iconset_path (Some listing) =
           \<lparr>enc_ok = True, icns_name = Some name,
            icns_bytes = be_bytes kMagicHeader @ be_bytes (of_nat (8 + length (stream_of ?fs))) @
                         stream_of ?fs,
            enc_log = []\<rparr>"
    by (rule encode_known_entries [OF assms(1) kn])
  from assms(6) have total: "8 + length (stream_of ?fs) < 2 ^ 32"
    unfolding enc by (simp add: length_be_bytes)
  from OpenIcnsFileForIconset_Some(3) [OF assms(1)] obtain stem where
    stem: "name = stem @ ''.icns''" "CHR ''/'' \<notin> set stem" "length stem + 8 < MAXPATHLEN"
    by blast
  from GetIconsetPath_icns [OF stem(2,3)] obtain dir where
    dir: "GetIconsetPath name = (dir, [])" "dir \<noteq> []" "length dir \<le> length stem + 8"
    unfolding stem(1) by blast
  from dir(3) assms(2) have room: "length dir + 21 \<le> MAXPATHLEN" unfolding stem(1) by simp
  have d: "fst (GetIconsetPath name) = dir" unfolding dir(1) by simp
  have dec: "CreateIconsetFromIcns name
               (Some (be_bytes kMagicHeader @ be_bytes (of_nat (8 + length (stream_of ?fs))) @
                      stream_of ?fs)) True =
             \<lparr>dec_ok = True, iconset_dir = Some dir, iconset_files = under dir ?fs,
              dec_messages = []\<rparr>"
    by (rule decode_stream [OF known_entries(4) [OF kn] total dir(1,2) room])
  have fin: "final_files (under dir ?fs) = map_of (under dir (visible_files d))"
    by (rule final_files_permuted [OF assms(4,5)])
  show ?thesis unfolding d unfolding enc using dec fin by simp
qed

theorem roundtrip_nonempty_payloads_witness:
  "enc_ok (CreateIcnsFromIconset ''icons/app.iconset''
     (Some [(''icon_32x32@2x.png'', Some [9]), (''.'', None), (''icon_16x16.png'', Some [1, 2, 3])])) \<and>
   CreateIconsetFromIcns ''app.icns''
     (Some (icns_bytes (CreateIcnsFromIconset ''icons/app.iconset''
        (Some [(''icon_32x32@2x.png'', Some [9]), (''.'', None), (''icon_16x16.png'', Some [1, 2, 3])]))))
     True =
     \<lparr>dec_ok = True, iconset_dir = Some ''app.iconset'',
      iconset_files = [(''app.iconset/icon_32x32@2x.png'', [9]),
                       (''app.iconset/icon_16x16.png'', [1, 2, 3])],
      dec_messages = []\<rparr> \<and>
   final_files [(''app.iconset/icon_32x32@2x.png'', [9]), (''app.iconset/icon_16x16.png'', [1, 2, 3])] =
     map_of [(''app.iconset/icon_16x16.png'', [1, 2, 3]), (''app.iconset/icon_32x32@2x.png'', [9])]"
proof -
  let ?d = "[(''.'', None), (''icon_16x16.png'', Some [1, 2, 3 :: byte]), (''icon_32x32@2x.png'', Some [9])]"
  let ?l = "[(''icon_32x32@2x.png'', Some [9 :: byte]), (''.'', None), (''icon_16x16.png'', Some [1, 2, 3])]"
  have h1: "OpenIcnsFileForIconset ''icons/app.iconset'' =
              (Some (''app.icns'', \<lparr>wdata = [0x69, 0x63, 0x6e, 0x73, 0, 0, 0, 0], wpos = 8\<rparr>), [])"
    by code_simp
  have h2: "length ''app.icns'' + 24 \<le> MAXPATHLEN" by (simp add: MAXPATHLEN_def)
  have h3: "\<forall>(n, c) \<in> set ?d. is_dot n \<or> (n \<in> fst ` set kIconTypes \<and> (\<exists>b. c = Some b \<and> b \<noteq> []))"
    by (simp add: is_dot_def kIconTypes_def)
  have h4: "distinct (map fst ?d)" by simp
  have h5: "mset ?l = mset ?d" by simp
  have "length (icns_bytes (CreateIcnsFromIconset ''icons/app.iconset'' (Some ?l))) = 28"
    by code_simp
  then have h6: "length (icns_bytes (CreateIcnsFromIconset ''icons/app.iconset'' (Some ?l))) < 2 ^ 32"
    by simp
  have g: "fst (GetIconsetPath ''app.icns'') = ''app.iconset''" by code_simp
  from roundtrip_nonempty_payloads [OF h1 h2 h3 h4 h5 h6]
  show ?thesis unfolding g by (simp add: under_def is_dot_def)
qed

text \<open>
  An empty payload does not survive: the encoder writes a chunk of length 8 for it and
  succeeds, and the decoder refuses that chunk.
\<close>

theorem roundtrip_fails_on_empty_payload:
  "CreateIcnsFromIconset ''a.iconset'' (Some [(''icon_16x16.png'', Some [])]) =
     \<lparr>enc_ok = True, icns_name = Some ''a.icns'',
      icns_bytes = [0x69, 0x63, 0x6e, 0x73, 0, 0, 0, 16, 0x69, 0x63, 0x70, 0x34, 0, 0, 0, 8],
      enc_log = []\<rparr> \<and>
   CreateIconsetFromIcns ''a.icns''
     (Some (icns_bytes (CreateIcnsFromIconset ''a.iconset'' (Some [(''icon_16x16.png'', Some [])]))))
     True =
     \<lparr>dec_ok = False, iconset_dir = Some ''a.iconset'', iconset_files = [],
      dec_messages = [PrintError ''Invalid size in .icns file'']\<rparr>"
  by code_simp

end
